theory Spec2Isabelle
  imports Main "HOL-Library.Word"

begin

unbundle bit_operations_syntax

section \<open>Conway's Game of Life on a torus: the simulation core\<close>

text \<open>
  The embedding follows the latest variant of the script (the one with \<open>resetGame\<close>,
  \<open>insertCellPattern\<close> and the resize handler). The core keeps its state in module
  globals: four variables that hold references to JavaScript \<open>Set\<close> objects of
  \<open>BigInt\<close> keys, the generation counter, and the grid dimensions.

  JavaScript numbers that hold integers are modelled as \<open>int\<close>, and \<open>BigInt\<close> as
  \<open>int\<close> as well: the bit operations of \<open>int\<close> are those of an infinite two's
  complement representation, which is what \<open>BigInt\<close> specifies for \<open><<\<close>, \<open>>>\<close>,
  \<open>|\<close> and \<open>&\<close>. The conversions \<open>BigInt(n)\<close> and \<open>Number(b)\<close> are the identity
  on integers below \<open>2^53\<close> in magnitude; the model is exact on that range.
\<close>

subsection \<open>Coordinate codec\<close>

text \<open>
  JavaScript's \<open>%\<close> truncates: the result has the sign of the dividend. For a zero
  divisor it yields \<open>NaN\<close>; that case is handled where the value is consumed (see
  \<open>simulate_loop\<close>), the function below is meant for a non-zero divisor.
\<close>

definition js_rem :: "int \<Rightarrow> int \<Rightarrow> int" where
  "js_rem a b = sgn a * (\<bar>a\<bar> mod \<bar>b\<bar>)"

text \<open>\<open>wrapCoord(x, y)\<close>; the globals \<open>width\<close> and \<open>height\<close> are the first two arguments.\<close>

definition wrapCoord :: "int \<Rightarrow> int \<Rightarrow> int \<Rightarrow> int \<Rightarrow> int \<times> int" where
  "wrapCoord w h x y =
     (let wrappedX = js_rem (js_rem x w + w) w;
          wrappedY = js_rem (js_rem y h + h) h
      in (wrappedX, wrappedY))"

text \<open>\<open>packCoord(x, y) = (BigInt(y) << 32n) | BigInt(x)\<close>\<close>

definition packCoord :: "int \<Rightarrow> int \<Rightarrow> int" where
  "packCoord x y = (push_bit 32 y) OR x"

text \<open>\<open>unpackCoord(packed)\<close>: the low 32 bits, the arithmetic shift, then \<open>wrapCoord\<close>.\<close>

definition unpackCoord :: "int \<Rightarrow> int \<Rightarrow> int \<Rightarrow> int \<times> int" where
  "unpackCoord w h packed =
     (let x = packed AND 0xffffffff;
          y = drop_bit 32 packed
      in wrapCoord w h x y)"

subsection \<open>Sets and the store\<close>

text \<open>
  A JavaScript \<open>Set\<close> keeps its elements in insertion order, and \<open>add\<close> of an element
  that is present changes nothing. Its contents are a list without repetitions.
\<close>

definition set_add :: "int \<Rightarrow> int list \<Rightarrow> int list" where
  "set_add k xs = (if k \<in> set xs then xs else xs @ [k])"

text \<open>
  The four globals hold references. \<open>simulate\<close> assigns \<open>potentialCells =
  potentialCellsNext\<close> without allocating a new set, so the two variables name one object
  afterwards; the store makes that sharing explicit. \<open>fresh\<close> is the next unused
  address, \<open>new Set()\<close> takes it.
\<close>

record game =
  store :: "nat \<Rightarrow> int list"
  fresh :: nat
  activeCells :: nat
  activeCellsNext :: nat
  potentialCells :: nat
  potentialCellsNext :: nat
  generation :: int
  width :: int
  height :: int

datatype error = RangeError

definition add_to :: "nat \<Rightarrow> int \<Rightarrow> game \<Rightarrow> game" where
  "add_to r k g = g\<lparr>store := (store g)(r := set_add k (store g r))\<rparr>"

text \<open>The module's initial state: four empty sets, generation 0.\<close>

definition init_game :: "int \<Rightarrow> int \<Rightarrow> game" where
  "init_game w h =
     \<lparr>store = (\<lambda>_. []), fresh = 4,
      activeCells = 0, activeCellsNext = 1, potentialCells = 2, potentialCellsNext = 3,
      generation = 0, width = w, height = h\<rparr>"

subsection \<open>Neighbour count\<close>

definition potentialNeighborOffsets :: "(int \<times> int) list" where
  "potentialNeighborOffsets =
     [(1, 1), (0, 1), (1, 0), (-1, -1), (0, -1), (-1, 0), (1, -1), (-1, 1)]"

definition neighborsCount :: "game \<Rightarrow> int \<Rightarrow> int \<Rightarrow> nat" where
  "neighborsCount g cx cy =
     fold (\<lambda>(ox, oy) count.
             let (nx, ny) = wrapCoord (width g) (height g) (cx + ox) (cy + oy);
                 potentialNeighbor = packCoord nx ny
             in if potentialNeighbor \<in> set (store g (activeCells g)) then count + 1 else count)
          potentialNeighborOffsets 0"

subsection \<open>One generation\<close>

text \<open>
  The nested \<open>for ny = -1..1\<close> and \<open>for nx = -1..1\<close>, in the order the
  source runs them, as pairs \<open>(nx, ny)\<close>.
\<close>

definition neighborhood_offsets :: "(int \<times> int) list" where
  "neighborhood_offsets =
     [(-1, -1), (0, -1), (1, -1), (-1, 0), (0, 0), (1, 0), (-1, 1), (0, 1), (1, 1)]"

text \<open>The body of the loop over \<open>potentialCells\<close>, for one key.\<close>

definition simulate_cell :: "int \<Rightarrow> game \<Rightarrow> game" where
  "simulate_cell cell g =
     (let (x, y) = unpackCoord (width g) (height g) cell;
          numNeighbors = neighborsCount g x y
      in if cell \<in> set (store g (activeCells g)) then
           (if numNeighbors \<noteq> 2 \<and> numNeighbors \<noteq> 3 then
              fold (\<lambda>(nx, ny) s. add_to (potentialCellsNext s) (packCoord (x + nx) (y + ny)) s)
                   neighborhood_offsets g
            else add_to (activeCellsNext g) cell g)
         else if numNeighbors = 3 then
           fold (\<lambda>(nx, ny) s.
                   let (wx, wy) = wrapCoord (width g) (height g) (x + nx) (y + ny)
                   in add_to (potentialCellsNext s) (packCoord wx wy) s)
                neighborhood_offsets (add_to (activeCellsNext g) cell g)
         else g)"

text \<open>
  \<open>for (const cell of potentialCells)\<close>: the iterator of a \<open>Set\<close> walks the
  insertion order by position and looks at the set again after every step, so keys that
  the body adds to the set under iteration are visited in the same loop. A zero
  dimension makes \<open>wrapCoord\<close> return \<open>NaN\<close>, and \<open>BigInt(NaN)\<close> in
  \<open>packCoord\<close> (first reached in \<open>neighborsCount\<close>) throws a \<open>RangeError\<close>.
\<close>

function simulate_loop :: "nat \<Rightarrow> game \<Rightarrow> error + game" where
  "simulate_loop i g =
     (if i < length (store g (potentialCells g)) then
        (if width g = 0 \<or> height g = 0 then Inl RangeError
         else simulate_loop (Suc i) (simulate_cell (store g (potentialCells g) ! i) g))
      else Inr g)"
  by pat_completeness auto

text \<open>\<open>new Set()\<close>: the address of the new, empty set and the store that holds it.\<close>

definition new_Set :: "game \<Rightarrow> nat \<times> game" where
  "new_Set g = (fresh g, g\<lparr>store := (store g)(fresh g := []), fresh := Suc (fresh g)\<rparr>)"

text \<open>
  The first three statements of \<open>simulate()\<close>: the next active set becomes the
  current one, a new empty set becomes the next one, and \<open>potentialCells\<close> is made to
  refer to the object \<open>potentialCellsNext\<close> refers to (which it keeps referring to).
\<close>

definition promote :: "game \<Rightarrow> game" where
  "promote g =
     (let g1 = g\<lparr>activeCells := activeCellsNext g\<rparr>;
          (r, g2) = new_Set g1;
          g3 = g2\<lparr>activeCellsNext := r\<rparr>
      in g3\<lparr>potentialCells := potentialCellsNext g3\<rparr>)"

text \<open>
  \<open>simulate()\<close>. \<open>updateLabels\<close> and \<open>drawCells\<close> at its end only read the state
  (they render \<open>activeCells\<close> and \<open>generation\<close>) and are left out. When the loop
  throws, the call ends there; the model returns the error and drops the half-updated
  globals.
\<close>

definition simulate :: "game \<Rightarrow> error + game" where
  "simulate g =
     (case simulate_loop 0 (promote g) of
        Inl e \<Rightarrow> Inl e
      | Inr g' \<Rightarrow> Inr (g'\<lparr>generation := generation g' + 1\<rparr>))"

text \<open>\<open>n\<close> calls of \<open>simulate\<close> in a row.\<close>

fun steps :: "nat \<Rightarrow> game \<Rightarrow> error + game" where
  "steps 0 g = Inr g"
| "steps (Suc n) g = (case simulate g of Inl e \<Rightarrow> Inl e | Inr g' \<Rightarrow> steps n g')"

subsection \<open>Mutation API\<close>

definition resetGame :: "game \<Rightarrow> game" where
  "resetGame g =
     (let (a, g1) = new_Set g;
          (b, g2) = new_Set (g1\<lparr>activeCells := a\<rparr>);
          (c, g3) = new_Set (g2\<lparr>activeCellsNext := b\<rparr>);
          (d, g4) = new_Set (g3\<lparr>potentialCells := c\<rparr>)
      in g4\<lparr>potentialCellsNext := d, generation := 0\<rparr>)"

text \<open>\<open>insertCell(x, y)\<close>: the key is packed from the arguments as they are.\<close>

definition insertCell :: "int \<Rightarrow> int \<Rightarrow> game \<Rightarrow> game" where
  "insertCell x y g =
     (let cell = packCoord x y;
          g1 = add_to (activeCells g) cell g;
          g2 = add_to (activeCellsNext g1) cell g1
      in fold (\<lambda>(nx, ny) s. add_to (potentialCellsNext s) (packCoord (x + nx) (y + ny)) s)
              neighborhood_offsets g2)"

definition insertCellPattern :: "int \<Rightarrow> int \<Rightarrow> string list \<Rightarrow> game \<Rightarrow> game" where
  "insertCellPattern x y pattern g =
     fold (\<lambda>(l, line) s.
             fold (\<lambda>(c, char) s'.
                     if char = CHR ''#'' then insertCell (x + int c) (y + int l) s' else s')
                  (enumerate 0 line) s)
          (enumerate 0 pattern) g"

subsection \<open>Reading the state\<close>

text \<open>The contents of the four sets, through the references the globals hold.\<close>

definition active :: "game \<Rightarrow> int list" where
  "active g = store g (activeCells g)"

definition activeNext :: "game \<Rightarrow> int list" where
  "activeNext g = store g (activeCellsNext g)"

definition potential :: "game \<Rightarrow> int list" where
  "potential g = store g (potentialCells g)"

definition potentialNext :: "game \<Rightarrow> int list" where
  "potentialNext g = store g (potentialCellsNext g)"

text \<open>
  The shape of every state the program reaches: the references are allocated, and the
  two active sets are objects of their own (only the two potential variables may share
  one).
\<close>

definition wf_game :: "game \<Rightarrow> bool" where
  "wf_game g \<longleftrightarrow>
     activeCells g < fresh g \<and> activeCellsNext g < fresh g \<and>
     potentialCells g < fresh g \<and> potentialCellsNext g < fresh g \<and>
     activeCells g \<noteq> activeCellsNext g \<and>
     activeCells g \<noteq> potentialCells g \<and> activeCells g \<noteq> potentialCellsNext g \<and>
     activeCellsNext g \<noteq> potentialCells g \<and> activeCellsNext g \<noteq> potentialCellsNext g"

text \<open>
  The states the program reaches through its handlers. A step that throws leaves the
  globals as the promotion set them: with a zero dimension the first evaluation throws
  before it adds anything. The resize handler assigns the two dimensions and leaves the
  sets alone. (The handler of the \<open>e\<close> key adds cells the way \<open>insertCell\<close> does.)
\<close>

inductive reachable :: "game \<Rightarrow> bool" where
  start: "reachable (init_game w h)"
| reset: "reachable g \<Longrightarrow> reachable (resetGame g)"
| insert: "reachable g \<Longrightarrow> reachable (insertCell x y g)"
| pattern: "reachable g \<Longrightarrow> reachable (insertCellPattern x y pattern g)"
| step: "reachable g \<Longrightarrow> simulate g = Inr g' \<Longrightarrow> reachable g'"
| thrown: "reachable g \<Longrightarrow> simulate g = Inl e \<Longrightarrow> reachable (promote g)"
| resize: "reachable g \<Longrightarrow> reachable (g\<lparr>width := w, height := h\<rparr>)"

section \<open>Definitions for the proofs\<close>

text \<open>
  Every key the loop adds is packed from a coordinate next to a wrapped one, so the keys
  come from a finite set, and a key is appended only when it is new.
\<close>

definition keyspace :: "int \<Rightarrow> int \<Rightarrow> int set" where
  "keyspace w h = (\<lambda>(a, b). packCoord a b) ` ({- \<bar>w\<bar> - 1 .. \<bar>w\<bar> + 1} \<times> {- \<bar>h\<bar> - 1 .. \<bar>h\<bar> + 1})"

text \<open>\<open>ys\<close> is \<open>xs\<close> followed by keys that are new, pairwise distinct and taken from \<open>K\<close>.\<close>

definition grows :: "int set \<Rightarrow> int list \<Rightarrow> int list \<Rightarrow> bool" where
  "grows K xs ys = (\<exists>new. ys = xs @ new \<and> distinct new \<and> set new \<inter> set xs = {} \<and> set new \<subseteq> K)"

text \<open>
  The measure of the loop: the keys of the key space that the set under iteration does
  not hold yet, plus the keys of the set that are still to be visited.
\<close>

definition loop_measure :: "nat \<times> game \<Rightarrow> nat" where
  "loop_measure = (\<lambda>(i, g). card (keyspace (width g) (height g) - set (store g (potentialCells g)))
       + length (store g (potentialCells g)) - i)"

text \<open>The test \<open>neighborsCount\<close> makes for one offset.\<close>

definition is_neighbor :: "game \<Rightarrow> int \<Rightarrow> int \<Rightarrow> int \<times> int \<Rightarrow> bool" where
  "is_neighbor g cx cy p =
     (packCoord (fst (wrapCoord (width g) (height g) (cx + fst p) (cy + snd p)))
                (snd (wrapCoord (width g) (height g) (cx + fst p) (cy + snd p)))
        \<in> set (active g))"

text \<open>
  The rule for one key, as \<open>simulate\<close> applies it: an active key stays with 2 or 3
  neighbours, a key that is not active is born with exactly 3.
\<close>

definition lives :: "game \<Rightarrow> int \<Rightarrow> bool" where
  "lives g c =
     (let (x, y) = unpackCoord (width g) (height g) c;
          n = neighborsCount g x y
      in (c \<in> set (active g) \<and> (n = 2 \<or> n = 3)) \<or> (c \<notin> set (active g) \<and> n = 3))"

text \<open>Two states that differ in the store only.\<close>

definition same_frame :: "game \<Rightarrow> game \<Rightarrow> bool" where
  "same_frame g g' \<longleftrightarrow>
     fresh g' = fresh g \<and> activeCells g' = activeCells g \<and>
     activeCellsNext g' = activeCellsNext g \<and> potentialCells g' = potentialCells g \<and>
     potentialCellsNext g' = potentialCellsNext g \<and> generation g' = generation g \<and>
     width g' = width g \<and> height g' = height g"

text \<open>
  The keys one evaluation adds to \<open>potentialCellsNext\<close>: for a death the keys packed
  from the unwrapped neighbourhood of the unpacked coordinate, for a birth the keys packed
  from the wrapped one. A set of keys that holds the potential set and is closed under
  these additions holds the potential set after the call.
\<close>

definition stimulated :: "game \<Rightarrow> int \<Rightarrow> int set" where
  "stimulated g cell =
     (let (x, y) = unpackCoord (width g) (height g) cell;
          numNeighbors = neighborsCount g x y
      in if cell \<in> set (active g) then
           (if numNeighbors \<noteq> 2 \<and> numNeighbors \<noteq> 3 then
              (\<lambda>(nx, ny). packCoord (x + nx) (y + ny)) ` set neighborhood_offsets
            else {})
         else if numNeighbors = 3 then
           (\<lambda>(nx, ny). case wrapCoord (width g) (height g) (x + nx) (y + ny) of
                          (wx, wy) \<Rightarrow> packCoord wx wy) ` set neighborhood_offsets
         else {})"

text \<open>One cell at \<open>(2, 2)\<close> on a 5 by 5 grid, inserted after a reset.\<close>

definition lonely :: game where
  "lonely = insertCell 2 2 (resetGame (init_game 5 5))"

text \<open>
  A well-formed state in which the next active set holds a key that no potential set
  holds (key 7 is the cell \<open>(7 mod 5, 0)\<close>).
\<close>

definition orphan :: game where
  "orphan = add_to 1 7 (init_game 5 5)"

text \<open>
  An empty grid of 255 by 120 cells: a canvas of 1535 by 720 pixels, on which the mouse
  handlers compute \<open>x\<close> from 0 to 255.
\<close>

definition grid :: game where
  "grid = resetGame (init_game 255 120)"

text \<open>
  A 2 by 2 block in the lower left corner of that grid: columns 0 and 1, rows 118 and
  119. Each of its cells has neighbour count 3.
\<close>

definition corner_block :: game where
  "corner_block = insertCell 1 119 (insertCell 0 119 (insertCell 1 118 (insertCell 0 118 grid)))"

text \<open>
  A 2 by 2 block across the seam of that grid, inserted with the column numbers 254 and
  255 (the width): on the torus, column 255 is column 0.
\<close>

definition seam_block :: game where
  "seam_block = insertCell 255 11 (insertCell 254 11 (insertCell 255 10 (insertCell 254 10 grid)))"

text \<open>One cell in column 0 of that grid, at \<open>(0, 2)\<close>.\<close>

definition edge_cell :: game where
  "edge_cell = insertCell 0 2 grid"

text \<open>The four keys of the 2 by 2 block with lower corner \<open>(x, y)\<close>.\<close>

definition block_keys :: "int \<Rightarrow> int \<Rightarrow> int set" where
  "block_keys x y = {packCoord x y, packCoord (x + 1) y, packCoord x (y + 1), packCoord (x + 1) (y + 1)}"

text \<open>The neighbourhood of that block lies inside the grid, and the grid is at most \<open>2^32\<close> wide.\<close>

definition inside :: "game \<Rightarrow> int \<Rightarrow> int \<Rightarrow> bool" where
  "inside g x y \<longleftrightarrow> 1 \<le> x \<and> x + 2 < width g \<and> 1 \<le> y \<and> y + 2 < height g \<and> width g \<le> 2 ^ 32"

text \<open>The keys of the 4 by 4 area around the block.\<close>

definition block_area :: "int \<Rightarrow> int \<Rightarrow> int set" where
  "block_area x y =
     (\<lambda>(i, j). packCoord (x + i) (y + j)) ` set (List.product [- 1, 0, 1, 2] [- 1, 0, 1, 2])"

text \<open>A reset, then the four cells of the block.\<close>

definition insert_block :: "int \<Rightarrow> int \<Rightarrow> game \<Rightarrow> game" where
  "insert_block x y g =
     insertCell (x + 1) (y + 1) (insertCell x (y + 1) (insertCell (x + 1) y (insertCell x y (resetGame g))))"

text \<open>
  The invariant of the block: the next active set is the block, the next potential set is
  the area around it.
\<close>

definition still :: "int \<Rightarrow> int \<Rightarrow> game \<Rightarrow> bool" where
  "still x y s \<longleftrightarrow>
     wf_game s \<and> inside s x y \<and> set (activeNext s) = block_keys x y \<and>
     set (potentialNext s) = block_area x y"

text \<open>
  Every key of the two active sets is a key of the potential set that the next step
  iterates.
\<close>

definition covered :: "game \<Rightarrow> bool" where
  "covered g \<longleftrightarrow>
     wf_game g \<and> set (active g) \<subseteq> set (potentialNext g) \<and>
     set (activeNext g) \<subseteq> set (potentialNext g)"

text \<open>
  The neighbour count in the words of the specification: the number of the eight Moore
  positions on the torus that hold a live cell, where a cell is live when a key of the
  active set unpacks to it. It is compared with \<open>neighborsCount\<close>, which looks for the
  key packed from the wrapped position.
\<close>

definition live_torus_count :: "game \<Rightarrow> int \<Rightarrow> int \<Rightarrow> nat" where
  "live_torus_count g cx cy =
     length (filter (\<lambda>(ox, oy). wrapCoord (width g) (height g) (cx + ox) (cy + oy)
                                  \<in> unpackCoord (width g) (height g) ` set (active g))
                    potentialNeighborOffsets)"

text \<open>
  Every key of the active set is the key that \<open>packCoord\<close> gives for the cell it
  unpacks to.
\<close>

definition canonical :: "game \<Rightarrow> bool" where
  "canonical g \<longleftrightarrow>
     (\<forall>k \<in> set (active g).
        packCoord (fst (unpackCoord (width g) (height g) k))
                  (snd (unpackCoord (width g) (height g) k)) = k)"

section \<open>Lemmas\<close>

subsection \<open>Termination of the loop\<close>

lemma finite_keyspace: "finite (keyspace w h)"
  by (simp add: keyspace_def)

lemma grows_refl: "grows K xs xs"
  by (simp add: grows_def)

lemma grows_trans: "grows K xs ys \<Longrightarrow> grows K ys zs \<Longrightarrow> grows K xs zs"
  unfolding grows_def by (elim exE conjE) (rule_tac x = "new @ newa" in exI, auto)

lemma grows_set_add: "k \<in> K \<Longrightarrow> grows K xs (set_add k xs)"
  by (auto simp: grows_def set_add_def)

lemma js_rem_bound: "b \<noteq> 0 \<Longrightarrow> \<bar>js_rem a b\<bar> < \<bar>b\<bar>"
  by (simp add: js_rem_def abs_mult abs_sgn_eq)

lemma wrapCoord_bound:
  "w \<noteq> 0 \<Longrightarrow> h \<noteq> 0 \<Longrightarrow> wrapCoord w h x y = (a, b) \<Longrightarrow> \<bar>a\<bar> < \<bar>w\<bar> \<and> \<bar>b\<bar> < \<bar>h\<bar>"
  by (auto simp: wrapCoord_def Let_def js_rem_bound)

lemma add_to_fields [simp]:
  "fresh (add_to r k g) = fresh g"
  "activeCells (add_to r k g) = activeCells g"
  "activeCellsNext (add_to r k g) = activeCellsNext g"
  "potentialCells (add_to r k g) = potentialCells g"
  "potentialCellsNext (add_to r k g) = potentialCellsNext g"
  "generation (add_to r k g) = generation g"
  "width (add_to r k g) = width g"
  "height (add_to r k g) = height g"
  by (simp_all add: add_to_def)

lemma store_add_to:
  "store (add_to r k g) q = (if q = r then set_add k (store g r) else store g q)"
  by (simp add: add_to_def)

lemma fold_add_fields [simp]:
  "fresh (fold (\<lambda>p s. add_to (potentialCellsNext s) (F p) s) os g) = fresh g"
  "activeCells (fold (\<lambda>p s. add_to (potentialCellsNext s) (F p) s) os g) = activeCells g"
  "activeCellsNext (fold (\<lambda>p s. add_to (potentialCellsNext s) (F p) s) os g) = activeCellsNext g"
  "potentialCells (fold (\<lambda>p s. add_to (potentialCellsNext s) (F p) s) os g) = potentialCells g"
  "potentialCellsNext (fold (\<lambda>p s. add_to (potentialCellsNext s) (F p) s) os g) = potentialCellsNext g"
  "generation (fold (\<lambda>p s. add_to (potentialCellsNext s) (F p) s) os g) = generation g"
  "width (fold (\<lambda>p s. add_to (potentialCellsNext s) (F p) s) os g) = width g"
  "height (fold (\<lambda>p s. add_to (potentialCellsNext s) (F p) s) os g) = height g"
  by (induction os arbitrary: g; simp)+

lemma fold_add_store_other:
  "q \<noteq> potentialCellsNext g \<Longrightarrow>
   store (fold (\<lambda>p s. add_to (potentialCellsNext s) (F p) s) os g) q = store g q"
  by (induction os arbitrary: g) (simp_all add: store_add_to)

lemma fold_add_fixed:
  "fold (\<lambda>p s. add_to (potentialCellsNext s) (F p) s) os g =
   fold (\<lambda>p. add_to (potentialCellsNext g) (F p)) os g"
  by (induction os arbitrary: g) simp_all

lemma fold_fixed_set:
  "set (store (fold (\<lambda>p. add_to r (F p)) os g) r) = set (store g r) \<union> F ` set os"
  by (induction os arbitrary: g) (auto simp: store_add_to set_add_def)

lemma fold_add_set:
  "set (store (fold (\<lambda>p s. add_to (potentialCellsNext s) (F p) s) os g) (potentialCellsNext g))
     = set (store g (potentialCellsNext g)) \<union> F ` set os"
  by (simp only: fold_add_fixed fold_fixed_set)

lemma fold_add_grows:
  "(\<And>p. p \<in> set os \<Longrightarrow> F p \<in> K) \<Longrightarrow>
   grows K (store g q) (store (fold (\<lambda>p s. add_to (potentialCellsNext s) (F p) s) os g) q)"
proof (induction os arbitrary: g)
  case Nil
  show ?case by (simp add: grows_refl)
next
  case (Cons p os)
  let ?g1 = "add_to (potentialCellsNext g) (F p) g"
  have k: "F p \<in> K" using Cons.prems by simp
  have 1: "grows K (store g q) (store ?g1 q)"
    by (simp add: store_add_to grows_refl grows_set_add k)
  have 2: "grows K (store ?g1 q)
     (store (fold (\<lambda>p s. add_to (potentialCellsNext s) (F p) s) os ?g1) q)"
    by (rule Cons.IH) (use Cons.prems in simp)
  show ?case using grows_trans [OF 1 2] by simp
qed

lemma simulate_cell_fields [simp]:
  "fresh (simulate_cell c g) = fresh g"
  "activeCells (simulate_cell c g) = activeCells g"
  "activeCellsNext (simulate_cell c g) = activeCellsNext g"
  "potentialCells (simulate_cell c g) = potentialCells g"
  "potentialCellsNext (simulate_cell c g) = potentialCellsNext g"
  "generation (simulate_cell c g) = generation g"
  "width (simulate_cell c g) = width g"
  "height (simulate_cell c g) = height g"
  by (simp_all add: simulate_cell_def Let_def split_def)

lemma packCoord_keyspace:
  "\<bar>a\<bar> \<le> \<bar>w\<bar> + 1 \<Longrightarrow> \<bar>b\<bar> \<le> \<bar>h\<bar> + 1 \<Longrightarrow> packCoord a b \<in> keyspace w h"
  unfolding keyspace_def by (rule image_eqI [where x = "(a, b)"]) auto

lemma offsets_bound: "(nx, ny) \<in> set neighborhood_offsets \<Longrightarrow> \<bar>nx\<bar> \<le> 1 \<and> \<bar>ny\<bar> \<le> 1"
  by (auto simp: neighborhood_offsets_def)

lemma simulate_cell_grows:
  assumes "width g \<noteq> 0" "height g \<noteq> 0"
  shows "grows (insert c (keyspace (width g) (height g))) (store g q) (store (simulate_cell c g) q)"
proof -
  let ?K = "insert c (keyspace (width g) (height g))"
  obtain x y where xy: "unpackCoord (width g) (height g) c = (x, y)" by fastforce
  have b: "\<bar>x\<bar> < \<bar>width g\<bar> \<and> \<bar>y\<bar> < \<bar>height g\<bar>"
    using xy assms by (auto simp: unpackCoord_def Let_def dest: wrapCoord_bound)
  have death: "packCoord (x + fst p) (y + snd p) \<in> ?K" if "p \<in> set neighborhood_offsets" for p
  proof -
    have "\<bar>fst p\<bar> \<le> 1 \<and> \<bar>snd p\<bar> \<le> 1" using offsets_bound [of "fst p" "snd p"] that by simp
    then show ?thesis using b by (intro insertI2 packCoord_keyspace) linarith+
  qed
  have birth: "packCoord (fst (wrapCoord (width g) (height g) (x + fst p) (y + snd p)))
                         (snd (wrapCoord (width g) (height g) (x + fst p) (y + snd p))) \<in> ?K" for p
  proof -
    obtain a b where ab: "wrapCoord (width g) (height g) (x + fst p) (y + snd p) = (a, b)" by fastforce
    from wrapCoord_bound [OF assms ab] show ?thesis
      by (simp add: ab) (intro disjI2 packCoord_keyspace; linarith)
  qed
  have own: "grows ?K (store g q) (store (add_to (activeCellsNext g) c g) q)"
    by (simp add: store_add_to grows_refl grows_set_add)
  have dies: "grows ?K (store g q)
      (store (fold (\<lambda>p s. add_to (potentialCellsNext s) (packCoord (x + fst p) (y + snd p)) s)
                neighborhood_offsets g) q)"
    by (rule fold_add_grows) (rule death)
  have born: "grows ?K (store g q)
      (store (fold (\<lambda>p s. add_to (potentialCellsNext s)
                (packCoord (fst (wrapCoord (width g) (height g) (x + fst p) (y + snd p)))
                           (snd (wrapCoord (width g) (height g) (x + fst p) (y + snd p)))) s)
                neighborhood_offsets (add_to (activeCellsNext g) c g)) q)"
    by (rule grows_trans [OF own]) (rule fold_add_grows, rule birth)
  show ?thesis
    unfolding simulate_cell_def Let_def xy split_def fst_conv snd_conv
    using dies born own by (simp add: grows_refl)
qed

lemma grows_measure:
  assumes "grows K xs ys" "finite K"
  shows "card (K - set ys) + length ys = card (K - set xs) + length xs"
proof -
  from assms(1) obtain new where n: "ys = xs @ new" "distinct new" "set new \<inter> set xs = {}" "set new \<subseteq> K"
    by (auto simp: grows_def)
  have sub: "set new \<subseteq> K - set xs" using n by auto
  have "K - set ys = (K - set xs) - set new" using n by auto
  then have "card (K - set ys) = card (K - set xs) - card (set new)"
    using sub assms(2) by (simp add: card_Diff_subset)
  moreover have "card (set new) \<le> card (K - set xs)"
    using sub assms(2) by (simp add: card_mono)
  moreover have "card (set new) = length new" using n by (simp add: distinct_card)
  ultimately show ?thesis using n by simp
qed

termination simulate_loop
proof (relation "measure loop_measure")
  show "wf (measure loop_measure)" by simp
next
  fix i and g :: game
  assume i: "i < length (store g (potentialCells g))" and nz: "\<not> (width g = 0 \<or> height g = 0)"
  let ?ps = "store g (potentialCells g)"
  let ?K = "keyspace (width g) (height g)"
  have "grows (insert (?ps ! i) ?K) ?ps (store (simulate_cell (?ps ! i) g) (potentialCells g))"
    using nz by (intro simulate_cell_grows) auto
  then have "grows ?K ?ps (store (simulate_cell (?ps ! i) g) (potentialCells g))"
    using i unfolding grows_def by (elim exE conjE) (rule_tac x = new in exI, auto)
  from grows_measure [OF this finite_keyspace] i
  show "((Suc i, simulate_cell (?ps ! i) g), (i, g)) \<in> measure loop_measure"
    by (simp add: loop_measure_def)
qed

declare simulate_loop.simps [simp del]

subsection \<open>The loop evaluates every key of the potential set once\<close>

lemma fold_count:
  "fold (\<lambda>p count. if P p then count + 1 else count) os (n::nat) = n + length (filter P os)"
  by (induction os arbitrary: n) simp_all

lemma neighborsCount_filter:
  "neighborsCount g cx cy = length (filter (is_neighbor g cx cy) potentialNeighborOffsets)"
  unfolding neighborsCount_def split_def Let_def is_neighbor_def active_def
  by (simp add: fold_count)

lemma neighborsCount_cong:
  "width g' = width g \<Longrightarrow> height g' = height g \<Longrightarrow> active g' = active g \<Longrightarrow>
   neighborsCount g' x y = neighborsCount g x y"
  by (simp add: neighborsCount_def active_def)

lemma lives_cong:
  "width g' = width g \<Longrightarrow> height g' = height g \<Longrightarrow> active g' = active g \<Longrightarrow>
   lives g' c = lives g c"
  unfolding lives_def Let_def split_def
  by (simp add: neighborsCount_cong [of g' g])

lemma grows_UNIV_prefix: "grows UNIV xs ys \<Longrightarrow> \<exists>new. ys = xs @ new"
  by (auto simp: grows_def)

lemma simulate_cell_extends: "\<exists>new. store (simulate_cell c g) q = store g q @ new"
proof -
  have own: "grows UNIV (store g q) (store (add_to (activeCellsNext g) c g) q)"
    by (simp add: store_add_to grows_refl grows_set_add)
  have "grows UNIV (store g q) (store (simulate_cell c g) q)"
    unfolding simulate_cell_def Let_def split_def
    by (auto intro!: fold_add_grows own grows_refl grows_trans [OF own fold_add_grows])
  then show ?thesis by (rule grows_UNIV_prefix)
qed

lemma simulate_cell_active:
  "wf_game g \<Longrightarrow> active (simulate_cell c g) = active g"
  unfolding simulate_cell_def Let_def split_def active_def wf_game_def
  by (simp add: fold_add_store_other store_add_to)

lemma simulate_cell_activeNext:
  "wf_game g \<Longrightarrow>
   activeNext (simulate_cell c g) = (if lives g c then set_add c (activeNext g) else activeNext g)"
  unfolding simulate_cell_def lives_def Let_def split_def active_def activeNext_def wf_game_def
  by (auto simp add: fold_add_store_other store_add_to)

lemma wf_simulate_cell: "wf_game (simulate_cell c g) = wf_game g"
  by (simp add: wf_game_def)

lemma same_frame_simulate_cell: "same_frame g (simulate_cell c g)"
  by (simp add: same_frame_def)

lemma same_frame_trans: "same_frame g g1 \<Longrightarrow> same_frame g1 g2 \<Longrightarrow> same_frame g g2"
  by (simp add: same_frame_def)

lemma simulate_loop_done:
  "\<not> i < length (potential g) \<Longrightarrow> simulate_loop i g = Inr g"
  by (subst simulate_loop.simps) (simp add: potential_def)

lemma simulate_loop_step:
  "i < length (potential g) \<Longrightarrow> width g \<noteq> 0 \<Longrightarrow> height g \<noteq> 0 \<Longrightarrow>
   simulate_loop i g = simulate_loop (Suc i) (simulate_cell (potential g ! i) g)"
  by (subst simulate_loop.simps) (simp add: potential_def)

lemma simulate_loop_inv:
  "wf_game g \<Longrightarrow> width g \<noteq> 0 \<Longrightarrow> height g \<noteq> 0 \<Longrightarrow>
   \<exists>g'. simulate_loop i g = Inr g' \<and> same_frame g g' \<and> active g' = active g \<and>
        (\<exists>new. potential g' = potential g @ new) \<and>
        set (activeNext g') = set (activeNext g) \<union> {c \<in> set (drop i (potential g')). lives g c}"
proof (induction i g rule: simulate_loop.induct)
  case (1 i g)
  show ?case
  proof (cases "i < length (potential g)")
    case False
    then show ?thesis
      by (simp add: simulate_loop_done same_frame_def)
  next
    case True
    define c where "c = potential g ! i"
    define g1 where "g1 = simulate_cell c g"
    have wf1: "wf_game g1" using "1.prems" by (simp add: g1_def wf_simulate_cell)
    have dims: "width g1 = width g" "height g1 = height g" by (simp_all add: g1_def)
    have "\<exists>g'. simulate_loop (Suc i) g1 = Inr g' \<and> same_frame g1 g' \<and> active g' = active g1 \<and>
        (\<exists>new. potential g' = potential g1 @ new) \<and>
        set (activeNext g') = set (activeNext g1) \<union> {c \<in> set (drop (Suc i) (potential g')). lives g1 c}"
    proof -
      have T: "i < length (store g (potentialCells g))" using True by (simp add: potential_def)
      have nz: "\<not> (width g = 0 \<or> height g = 0)" using "1.prems" by simp
      have eq: "simulate_cell (store g (potentialCells g) ! i) g = g1"
        by (simp add: g1_def c_def potential_def)
      have "width g1 \<noteq> 0" "height g1 \<noteq> 0" using "1.prems" dims by simp_all
      with "1.IH" [OF T nz, unfolded eq, OF wf1] show ?thesis .
    qed
    then obtain g' new' where
      run: "simulate_loop (Suc i) g1 = Inr g'" and fr: "same_frame g1 g'" and
      act: "active g' = active g1" and pot: "potential g' = potential g1 @ new'" and
      nxt: "set (activeNext g') = set (activeNext g1) \<union> {c \<in> set (drop (Suc i) (potential g')). lives g1 c}"
      by blast
    have a1: "active g1 = active g" using "1.prems" by (simp add: g1_def simulate_cell_active)
    obtain new1 where p1: "potential g1 = potential g @ new1"
      using simulate_cell_extends [of c g "potentialCells g"] by (auto simp: g1_def potential_def)
    have l1: "lives g1 c' = lives g c'" for c'
      by (rule lives_cong) (simp_all add: dims a1)
    have n1: "set (activeNext g1) = set (activeNext g) \<union> (if lives g c then {c} else {})"
      using "1.prems" by (auto simp: g1_def simulate_cell_activeNext set_add_def)
    have pfull: "potential g' = potential g @ new1 @ new'" using pot p1 by simp
    have ci: "potential g' ! i = c" using True by (simp add: pfull nth_append c_def)
    have "i < length (potential g')" using True by (simp add: pfull)
    then have dr: "drop i (potential g') = c # drop (Suc i) (potential g')"
      using ci by (simp add: Cons_nth_drop_Suc [symmetric])
    have "simulate_loop i g = Inr g'"
      using True "1.prems" run by (simp add: simulate_loop_step g1_def c_def)
    moreover have "same_frame g g'"
      using same_frame_trans [OF same_frame_simulate_cell fr [unfolded g1_def]] .
    moreover have "active g' = active g" using act a1 by simp
    moreover have "\<exists>new. potential g' = potential g @ new" using pfull by blast
    moreover have "set (activeNext g') = set (activeNext g) \<union> {c \<in> set (drop i (potential g')). lives g c}"
      unfolding nxt n1 dr by (auto simp: l1)
    ultimately show ?thesis by blast
  qed
qed

subsection \<open>One call of \<open>simulate\<close>\<close>

lemma promote_fields [simp]:
  "fresh (promote g) = Suc (fresh g)"
  "activeCells (promote g) = activeCellsNext g"
  "activeCellsNext (promote g) = fresh g"
  "potentialCells (promote g) = potentialCellsNext g"
  "potentialCellsNext (promote g) = potentialCellsNext g"
  "generation (promote g) = generation g"
  "width (promote g) = width g"
  "height (promote g) = height g"
  by (simp_all add: promote_def new_Set_def Let_def)

lemma store_promote: "store (promote g) q = (if q = fresh g then [] else store g q)"
  by (simp add: promote_def new_Set_def Let_def)

lemma wf_promote: "wf_game g \<Longrightarrow> wf_game (promote g)"
  by (auto simp: wf_game_def)

lemma promote_sets:
  assumes "wf_game g"
  shows "active (promote g) = activeNext g" "activeNext (promote g) = []"
        "potential (promote g) = potentialNext g" "potentialNext (promote g) = potentialNext g"
  using assms by (auto simp: wf_game_def active_def activeNext_def potential_def potentialNext_def store_promote)

lemma generation_update_sets [simp]:
  "active (g\<lparr>generation := n\<rparr>) = active g"
  "activeNext (g\<lparr>generation := n\<rparr>) = activeNext g"
  "potential (g\<lparr>generation := n\<rparr>) = potential g"
  "potentialNext (g\<lparr>generation := n\<rparr>) = potentialNext g"
  "wf_game (g\<lparr>generation := n\<rparr>) = wf_game g"
  by (simp_all add: active_def activeNext_def potential_def potentialNext_def wf_game_def)

lemma simulate_props:
  assumes wf: "wf_game g" and nz: "width g \<noteq> 0" "height g \<noteq> 0"
  shows "\<exists>g'. simulate g = Inr g' \<and> wf_game g' \<and>
           width g' = width g \<and> height g' = height g \<and> generation g' = generation g + 1 \<and>
           activeCells g' = activeCellsNext g \<and> activeCellsNext g' = fresh g \<and>
           potentialCells g' = potentialCellsNext g \<and> potentialCellsNext g' = potentialCellsNext g \<and>
           active g' = activeNext g \<and>
           (\<exists>new. potential g' = potentialNext g @ new) \<and>
           potentialNext g' = potential g' \<and>
           set (activeNext g') = {c \<in> set (potential g'). lives (promote g) c}"
proof -
  from simulate_loop_inv [OF wf_promote [OF wf], of 0] nz
  obtain l new where
    run: "simulate_loop 0 (promote g) = Inr l" and fr: "same_frame (promote g) l" and
    act: "active l = active (promote g)" and pot: "potential l = potential (promote g) @ new" and
    nxt: "set (activeNext l) = set (activeNext (promote g)) \<union> {c \<in> set (drop 0 (potential l)). lives (promote g) c}"
    by auto
  let ?g' = "l\<lparr>generation := generation l + 1\<rparr>"
  have "simulate g = Inr ?g'" by (simp add: simulate_def run)
  moreover have "wf_game l" using wf_promote [OF wf] fr by (simp add: wf_game_def same_frame_def)
  moreover have "potentialNext l = potential l"
    using fr by (simp add: potentialNext_def potential_def same_frame_def)
  moreover have "\<exists>new. potential l = potentialNext g @ new"
    using pot promote_sets [OF wf] by simp
  moreover have "set (activeNext l) = {c \<in> set (potential l). lives (promote g) c}"
    using nxt promote_sets [OF wf] by simp
  moreover have "active l = activeNext g" using act promote_sets [OF wf] by simp
  ultimately show ?thesis
    using fr by (intro exI [of _ ?g']) (simp add: same_frame_def)
qed

subsection \<open>The codec on wrapped coordinates\<close>

lemma js_rem_nonneg: "0 \<le> a \<Longrightarrow> 0 < b \<Longrightarrow> js_rem a b = a mod b"
  by (cases "a = 0") (simp_all add: js_rem_def)

lemma js_rem_mod: "0 < b \<Longrightarrow> js_rem a b mod b = a mod b"
proof (cases "0 \<le> a")
  case True
  assume "0 < b"
  with True show ?thesis by (simp add: js_rem_nonneg)
next
  case False
  assume b: "0 < b"
  from False have "js_rem a b = - ((- a) mod b)" using b by (simp add: js_rem_def)
  then show ?thesis by (simp add: mod_minus_eq)
qed

lemma js_wrap: 
  assumes "0 < b"
  shows "js_rem (js_rem a b + b) b = a mod b"
proof -
  have "\<bar>js_rem a b\<bar> < \<bar>b\<bar>" using assms by (intro js_rem_bound) simp
  then have "0 \<le> js_rem a b + b" using assms by linarith
  then have "js_rem (js_rem a b + b) b = (js_rem a b + b) mod b"
    using assms by (rule js_rem_nonneg)
  also have "\<dots> = a mod b" using assms by (simp add: js_rem_mod)
  finally show ?thesis .
qed

lemma wrapCoord_pos: "0 < w \<Longrightarrow> 0 < h \<Longrightarrow> wrapCoord w h x y = (x mod w, y mod h)"
  by (simp add: wrapCoord_def js_wrap)

lemma mask32: "(0xffffffff :: int) = mask 32"
  by (simp add: mask_eq_exp_minus_1)

lemma low32_self: "0 \<le> x \<Longrightarrow> x < 2 ^ 32 \<Longrightarrow> take_bit 32 x = (x::int)"
  by (simp add: take_bit_int_eq_self)

lemma packCoord_low: "0 \<le> x \<Longrightarrow> x < 2 ^ 32 \<Longrightarrow> packCoord x y AND 0xffffffff = x"
  unfolding packCoord_def mask32 take_bit_eq_mask [symmetric]
  by (simp only: take_bit_or take_bit_push_bit low32_self) simp

lemma packCoord_high: "0 \<le> x \<Longrightarrow> x < 2 ^ 32 \<Longrightarrow> drop_bit 32 (packCoord x y) = y"
proof -
  assume "0 \<le> x" "x < 2 ^ 32"
  then have "take_bit 32 x = x" by (rule low32_self)
  then have "drop_bit 32 x = 0" by (simp only: take_bit_eq_self_iff_drop_bit_eq_0)
  then show ?thesis
    unfolding packCoord_def by (simp add: drop_bit_or drop_bit_push_bit)
qed

lemma unpack_pack:
  "0 \<le> x \<Longrightarrow> x < 2 ^ 32 \<Longrightarrow> unpackCoord w h (packCoord x y) = wrapCoord w h x y"
  unfolding unpackCoord_def Let_def by (simp only: packCoord_low packCoord_high)

lemma wrapCoord_idem:
  "0 < w \<Longrightarrow> 0 < h \<Longrightarrow> wrapCoord w h (x mod w) (y mod h) = (x mod w, y mod h)"
  by (simp add: wrapCoord_pos)

lemma roundtrip:
  assumes "0 < w" "w \<le> 2 ^ 32" "0 < h"
  shows "unpackCoord w h (packCoord (fst (wrapCoord w h x y)) (snd (wrapCoord w h x y))) = wrapCoord w h x y"
proof -
  have "0 \<le> x mod w" "x mod w < 2 ^ 32"
    using assms by (simp_all add: pos_mod_bound [THEN less_le_trans])
  then show ?thesis using assms by (simp add: wrapCoord_pos unpack_pack)
qed

subsection \<open>Reset and insertion\<close>

lemma resetGame_fields [simp]:
  "fresh (resetGame g) = fresh g + 4"
  "activeCells (resetGame g) = fresh g"
  "activeCellsNext (resetGame g) = fresh g + 1"
  "potentialCells (resetGame g) = fresh g + 2"
  "potentialCellsNext (resetGame g) = fresh g + 3"
  "generation (resetGame g) = 0"
  "width (resetGame g) = width g"
  "height (resetGame g) = height g"
  by (simp_all add: resetGame_def new_Set_def Let_def)

lemma resetGame_sets [simp]:
  "active (resetGame g) = []" "activeNext (resetGame g) = []"
  "potential (resetGame g) = []" "potentialNext (resetGame g) = []"
  by (simp_all add: active_def activeNext_def potential_def potentialNext_def)
     (simp_all add: resetGame_def new_Set_def Let_def)

lemma wf_resetGame [simp]: "wf_game (resetGame g)"
  by (simp add: wf_game_def)

lemma wf_init_game [simp]: "wf_game (init_game w h)"
  by (simp add: wf_game_def init_game_def)

lemma insertCell_fields [simp]:
  "fresh (insertCell x y g) = fresh g"
  "activeCells (insertCell x y g) = activeCells g"
  "activeCellsNext (insertCell x y g) = activeCellsNext g"
  "potentialCells (insertCell x y g) = potentialCells g"
  "potentialCellsNext (insertCell x y g) = potentialCellsNext g"
  "generation (insertCell x y g) = generation g"
  "width (insertCell x y g) = width g"
  "height (insertCell x y g) = height g"
  by (simp_all add: insertCell_def Let_def split_def)

lemma wf_insertCell [simp]: "wf_game (insertCell x y g) = wf_game g"
  by (simp add: wf_game_def)

lemma insertCell_active:
  "wf_game g \<Longrightarrow> active (insertCell x y g) = set_add (packCoord x y) (active g)"
  unfolding insertCell_def Let_def split_def active_def wf_game_def
  by (simp add: fold_add_store_other store_add_to)

lemma insertCell_activeNext:
  "wf_game g \<Longrightarrow> activeNext (insertCell x y g) = set_add (packCoord x y) (activeNext g)"
  unfolding insertCell_def Let_def split_def activeNext_def wf_game_def
  by (simp add: fold_add_store_other store_add_to)

lemma insertCell_potentialNext:
  "wf_game g \<Longrightarrow> set (potentialNext (insertCell x y g)) =
     set (potentialNext g) \<union> (\<lambda>(nx, ny). packCoord (x + nx) (y + ny)) ` set neighborhood_offsets"
proof -
  assume wf: "wf_game g"
  let ?g2 = "add_to (activeCellsNext g) (packCoord x y) (add_to (activeCells g) (packCoord x y) g)"
  have "potentialNext (insertCell x y g) =
        store (fold (\<lambda>p s. add_to (potentialCellsNext s) (packCoord (x + fst p) (y + snd p)) s)
                 neighborhood_offsets ?g2) (potentialCellsNext ?g2)"
    by (simp add: insertCell_def Let_def split_def potentialNext_def)
  moreover have "store ?g2 (potentialCellsNext ?g2) = potentialNext g"
    using wf by (simp add: store_add_to wf_game_def potentialNext_def)
  ultimately show ?thesis
    by (simp only: fold_add_set) (simp add: split_def)
qed

subsection \<open>Generation counter\<close>

lemma simulate_loop_frame: "simulate_loop i g = Inr g' \<Longrightarrow> same_frame g g'"
proof (induction i g rule: simulate_loop.induct)
  case (1 i g)
  show ?case
  proof (cases "i < length (potential g)")
    case False
    with "1.prems" show ?thesis by (simp add: simulate_loop_done same_frame_def)
  next
    case True
    show ?thesis
    proof (cases "width g = 0 \<or> height g = 0")
      case True
      with \<open>i < length (potential g)\<close> "1.prems" show ?thesis
        by (subst (asm) simulate_loop.simps) (simp add: potential_def)
    next
      case False
      have T: "i < length (store g (potentialCells g))" using True by (simp add: potential_def)
      have "simulate_loop (Suc i) (simulate_cell (store g (potentialCells g) ! i) g) = Inr g'"
        using "1.prems" True False by (simp add: simulate_loop_step potential_def)
      from "1.IH" [OF T False this] show ?thesis
        by (simp add: same_frame_def)
    qed
  qed
qed

lemma simulate_generation: "simulate g = Inr g' \<Longrightarrow> generation g' = generation g + 1"
  unfolding simulate_def
  by (auto split: sum.splits dest!: simulate_loop_frame simp: same_frame_def)

lemma simulate_resetGame:
  "simulate (resetGame g) = Inr ((promote (resetGame g))\<lparr>generation := 1\<rparr>)"
proof -
  have "potential (promote (resetGame g)) = []"
    by (simp add: promote_sets)
  then have "simulate_loop 0 (promote (resetGame g)) = Inr (promote (resetGame g))"
    by (simp add: simulate_loop_done)
  then show ?thesis by (simp add: simulate_def)
qed

lemma insertCell_self_potential:
  "wf_game g \<Longrightarrow> packCoord x y \<in> set (potentialNext (insertCell x y g))"
proof -
  assume "wf_game g"
  moreover have "(0, 0) \<in> set neighborhood_offsets" by (simp add: neighborhood_offsets_def)
  then have "(\<lambda>(nx, ny). packCoord (x + nx) (y + ny)) (0, 0)
      \<in> (\<lambda>(nx, ny). packCoord (x + nx) (y + ny)) ` set neighborhood_offsets"
    by (rule imageI)
  ultimately show ?thesis by (simp add: insertCell_potentialNext)
qed

lemma simulate_idle:
  "wf_game g \<Longrightarrow> potentialNext g = [] \<Longrightarrow>
   simulate g = Inr ((promote g)\<lparr>generation := generation g + 1\<rparr>)"
  by (simp add: simulate_def simulate_loop_done promote_sets)

subsection \<open>Reachable states are well formed\<close>

lemma wf_insertCellPattern: "wf_game (insertCellPattern x y pattern g) = wf_game g"
proof -
  have row: "wf_game (fold (\<lambda>(c, char) s'.
                     if char = CHR ''#'' then insertCell (x + int c) (y + int l) s' else s')
                  cs s) = wf_game s" for cs l s
    by (induction cs arbitrary: s) (simp_all add: split_def)
  have "wf_game (fold (\<lambda>(l, line) s.
             fold (\<lambda>(c, char) s'.
                     if char = CHR ''#'' then insertCell (x + int c) (y + int l) s' else s')
                  (enumerate 0 line) s) ls g) = wf_game g" for ls
    by (induction ls arbitrary: g) (simp_all add: split_def row [unfolded split_def])
  then show ?thesis by (simp add: insertCellPattern_def)
qed

lemma wf_simulate: "wf_game g \<Longrightarrow> simulate g = Inr g' \<Longrightarrow> wf_game g'"
proof -
  assume wf: "wf_game g" and "simulate g = Inr g'"
  then obtain l where l: "simulate_loop 0 (promote g) = Inr l"
    and g': "g' = l\<lparr>generation := generation l + 1\<rparr>"
    by (auto simp: simulate_def split: sum.splits)
  from simulate_loop_frame [OF l] wf_promote [OF wf] have "wf_game l"
    by (simp add: wf_game_def same_frame_def)
  then show ?thesis by (simp add: g')
qed

lemma reachable_wf: "reachable g \<Longrightarrow> wf_game g"
proof (induction rule: reachable.induct)
  case (resize g w h)
  then show ?case by (simp add: wf_game_def)
qed (simp_all add: wf_insertCellPattern wf_simulate wf_promote)

subsection \<open>What a call adds to the potential set\<close>

lemma stimulated_cong:
  "width g' = width g \<Longrightarrow> height g' = height g \<Longrightarrow> active g' = active g \<Longrightarrow>
   stimulated g' c = stimulated g c"
  unfolding stimulated_def Let_def split_def
  by (simp add: neighborsCount_cong [of g' g])

lemma simulate_cell_potentialNext:
  assumes "wf_game g"
  shows "set (potentialNext (simulate_cell c g)) = set (potentialNext g) \<union> stimulated g c"
proof -
  obtain x y where xy: "unpackCoord (width g) (height g) c = (x, y)" by fastforce
  let ?n = "neighborsCount g x y"
  let ?g1 = "add_to (activeCellsNext g) c g"
  have ne: "activeCellsNext g \<noteq> potentialCellsNext g" using assms by (simp add: wf_game_def)
  have own: "store ?g1 (potentialCellsNext g) = store g (potentialCellsNext g)"
    using ne by (simp add: store_add_to)
  consider (dies) "c \<in> set (active g)" "?n \<noteq> 2 \<and> ?n \<noteq> 3"
    | (stays) "c \<in> set (active g)" "\<not> (?n \<noteq> 2 \<and> ?n \<noteq> 3)"
    | (born) "c \<notin> set (active g)" "?n = 3"
    | (idle) "c \<notin> set (active g)" "?n \<noteq> 3"
    by blast
  then show ?thesis
  proof cases
    case dies
    then have "simulate_cell c g =
        fold (\<lambda>p s. add_to (potentialCellsNext s) (packCoord (x + fst p) (y + snd p)) s)
             neighborhood_offsets g"
      by (simp add: simulate_cell_def xy split_def active_def Let_def)
    then show ?thesis using dies
      by (simp add: potentialNext_def fold_add_set stimulated_def xy split_def Let_def)
  next
    case stays
    then have "simulate_cell c g = ?g1"
      by (auto simp add: simulate_cell_def xy active_def Let_def)
    then show ?thesis using stays own
      by (auto simp add: potentialNext_def stimulated_def xy Let_def)
  next
    case born
    let ?F = "\<lambda>p. packCoord (fst (wrapCoord (width g) (height g) (x + fst p) (y + snd p)))
                          (snd (wrapCoord (width g) (height g) (x + fst p) (y + snd p)))"
    from born have "simulate_cell c g =
        fold (\<lambda>p s. add_to (potentialCellsNext s) (?F p) s) neighborhood_offsets ?g1"
      by (simp add: simulate_cell_def xy split_def active_def Let_def)
    then have "set (potentialNext (simulate_cell c g)) =
        set (store ?g1 (potentialCellsNext ?g1)) \<union> ?F ` set neighborhood_offsets"
      using fold_add_set [of ?F neighborhood_offsets ?g1] by (simp add: potentialNext_def)
    then show ?thesis using born
      by (simp add: own potentialNext_def stimulated_def xy split_def Let_def)
  next
    case idle
    then have "simulate_cell c g = g"
      by (simp add: simulate_cell_def xy active_def Let_def)
    then show ?thesis using idle by (simp add: stimulated_def xy Let_def)
  qed
qed

lemma simulate_loop_closed:
  "wf_game g \<Longrightarrow> width g \<noteq> 0 \<Longrightarrow> height g \<noteq> 0 \<Longrightarrow>
   potentialCells g = potentialCellsNext g \<Longrightarrow>
   set (potential g) \<subseteq> S \<Longrightarrow> (\<And>c. c \<in> S \<Longrightarrow> stimulated g c \<subseteq> S) \<Longrightarrow>
   simulate_loop i g = Inr g' \<Longrightarrow> set (potential g') \<subseteq> S"
proof (induction i g rule: simulate_loop.induct)
  case (1 i g)
  show ?case
  proof (cases "i < length (potential g)")
    case False
    with "1.prems" show ?thesis by (simp add: simulate_loop_done)
  next
    case True
    define c where "c = potential g ! i"
    define g1 where "g1 = simulate_cell c g"
    have T: "i < length (store g (potentialCells g))" using True by (simp add: potential_def)
    have nz: "\<not> (width g = 0 \<or> height g = 0)" using "1.prems" by simp
    have eq: "simulate_cell (store g (potentialCells g) ! i) g = g1"
      by (simp add: g1_def c_def potential_def)
    have cS: "c \<in> S" using True "1.prems"(5) by (auto simp: c_def)
    have pp: "potential g = potentialNext g" "potential g1 = potentialNext g1"
      using "1.prems"(4) by (simp_all add: potential_def potentialNext_def g1_def)
    have wf1: "wf_game g1" using "1.prems" by (simp add: g1_def wf_simulate_cell)
    have d1: "width g1 \<noteq> 0" "height g1 \<noteq> 0" "potentialCells g1 = potentialCellsNext g1"
      using "1.prems" by (simp_all add: g1_def)
    have p1: "set (potential g1) \<subseteq> S"
      using simulate_cell_potentialNext [OF "1.prems"(1), of c] "1.prems"(5) "1.prems"(6) [OF cS]
      by (simp add: pp g1_def [symmetric])
    have a1: "active g1 = active g" using "1.prems" by (simp add: g1_def simulate_cell_active)
    have st: "stimulated g1 k = stimulated g k" for k
      by (rule stimulated_cong) (simp_all add: g1_def a1 [unfolded g1_def])
    have run: "simulate_loop (Suc i) g1 = Inr g'"
      using "1.prems"(7) True "1.prems"(2,3) by (simp add: simulate_loop_step g1_def c_def)
    show ?thesis
      using "1.IH" [OF T nz, unfolded eq, OF wf1 d1 p1 _ run] "1.prems"(6) by (simp add: st)
  qed
qed

lemma simulate_closed:
  assumes "wf_game g" "width g \<noteq> 0" "height g \<noteq> 0"
    and "set (potentialNext g) \<subseteq> S" "\<And>c. c \<in> S \<Longrightarrow> stimulated (promote g) c \<subseteq> S"
    and "simulate g = Inr g'"
  shows "set (potentialNext g') \<subseteq> S"
proof -
  from assms(6) obtain l where l: "simulate_loop 0 (promote g) = Inr l"
    and g': "g' = l\<lparr>generation := generation l + 1\<rparr>"
    by (auto simp: simulate_def split: sum.splits)
  have "set (potential l) \<subseteq> S"
    using assms by (intro simulate_loop_closed [OF wf_promote _ _ _ _ _ l])
      (simp_all add: promote_sets)
  moreover have "potentialNext l = potential l"
    using simulate_loop_frame [OF l] by (simp add: same_frame_def potential_def potentialNext_def)
  ultimately show ?thesis by (simp add: g')
qed

subsection \<open>Births and deaths that do reach their neighbourhood\<close>

text \<open>
  Every key of the potential set that a call evaluates has its additions in the potential
  set when the call returns. For a birth these are the keys of the wrapped neighbourhood,
  each of which unpacks to the neighbour it was packed from. For a death they are packed
  unwrapped; such a key unpacks to the right neighbour as long as its \<open>x\<close> is not
  negative, that is, for every neighbour but those in column \<open>-1\<close> of a cell in
  column 0.
\<close>

lemma simulate_loop_stimulates:
  "wf_game g \<Longrightarrow> width g \<noteq> 0 \<Longrightarrow> height g \<noteq> 0 \<Longrightarrow>
   potentialCells g = potentialCellsNext g \<Longrightarrow> simulate_loop i g = Inr g' \<Longrightarrow>
   c \<in> set (drop i (potential g')) \<Longrightarrow> stimulated g c \<subseteq> set (potential g')"
proof (induction i g rule: simulate_loop.induct)
  case (1 i g)
  show ?case
  proof (cases "i < length (potential g)")
    case False
    with "1.prems" show ?thesis by (simp add: simulate_loop_done)
  next
    case True
    define k where "k = potential g ! i"
    define g1 where "g1 = simulate_cell k g"
    have T: "i < length (store g (potentialCells g))" using True by (simp add: potential_def)
    have nz: "\<not> (width g = 0 \<or> height g = 0)" using "1.prems" by simp
    have eq: "simulate_cell (store g (potentialCells g) ! i) g = g1"
      by (simp add: g1_def k_def potential_def)
    have wf1: "wf_game g1" using "1.prems" by (simp add: g1_def wf_simulate_cell)
    have d1: "width g1 \<noteq> 0" "height g1 \<noteq> 0" "potentialCells g1 = potentialCellsNext g1"
      using "1.prems" by (simp_all add: g1_def)
    have run: "simulate_loop (Suc i) g1 = Inr g'"
      using "1.prems"(5) True "1.prems"(2,3) by (simp add: simulate_loop_step g1_def k_def)
    from simulate_loop_inv [OF wf1 d1(1,2), of "Suc i"] run
    obtain new where ext: "potential g' = potential g1 @ new" by auto
    obtain new1 where p1: "potential g1 = potential g @ new1"
      using simulate_cell_extends [of k g "potentialCells g"] by (auto simp: g1_def potential_def)
    have pp: "potential g1 = potentialNext g1"
      using "1.prems"(4) by (simp add: potential_def potentialNext_def g1_def)
    have a1: "active g1 = active g" using "1.prems" by (simp add: g1_def simulate_cell_active)
    have st: "stimulated g1 c = stimulated g c"
      by (rule stimulated_cong) (simp_all add: g1_def a1 [unfolded g1_def])
    have "i < length (potential g')" using True by (simp add: ext p1)
    moreover have "potential g' ! i = k" using True by (simp add: ext p1 nth_append k_def)
    ultimately have dr: "drop i (potential g') = k # drop (Suc i) (potential g')"
      by (simp add: Cons_nth_drop_Suc [symmetric])
    from "1.prems"(6) consider "c = k" | "c \<in> set (drop (Suc i) (potential g'))"
      unfolding dr by auto
    then show ?thesis
    proof cases
      case 1
      have "stimulated g k \<subseteq> set (potential g1)"
        using simulate_cell_potentialNext [OF "1.prems"(1), of k] by (simp add: pp g1_def [symmetric])
      then show ?thesis using ext 1 by auto
    next
      case 2
      from "1.IH" [OF T nz, unfolded eq, OF wf1 d1 run 2] show ?thesis by (simp add: st)
    qed
  qed
qed

lemma simulate_stimulates:
  assumes "wf_game g" "width g \<noteq> 0" "height g \<noteq> 0" "simulate g = Inr g'"
    and "c \<in> set (potential g')"
  shows "stimulated (promote g) c \<subseteq> set (potentialNext g')"
proof -
  from assms(4) obtain l where l: "simulate_loop 0 (promote g) = Inr l"
    and g': "g' = l\<lparr>generation := generation l + 1\<rparr>"
    by (auto simp: simulate_def split: sum.splits)
  have "stimulated (promote g) c \<subseteq> set (potential l)"
    using assms by (intro simulate_loop_stimulates [OF wf_promote _ _ _ l]) (simp_all add: g')
  moreover have "potentialNext l = potential l"
    using simulate_loop_frame [OF l] by (simp add: same_frame_def potential_def potentialNext_def)
  ultimately show ?thesis by (simp add: g')
qed

lemma birth_neighborhood:
  assumes "wf_game g" "0 < width g" "width g \<le> 2 ^ 32" "0 < height g" "simulate g = Inr g'"
    and "c \<in> set (potential g')" "c \<notin> set (active g')" "c \<in> set (activeNext g')"
    and "(nx, ny) \<in> set neighborhood_offsets"
    and "unpackCoord (width g) (height g) c = (x, y)"
  shows "\<exists>k \<in> set (potentialNext g').
           unpackCoord (width g) (height g) k = wrapCoord (width g) (height g) (x + nx) (y + ny)"
proof -
  have nz: "width g \<noteq> 0" "height g \<noteq> 0" using assms(2,4) by simp_all
  from simulate_props [OF assms(1) nz] assms(5) have
    act: "active g' = activeNext g" and
    nxt: "set (activeNext g') = {c \<in> set (potential g'). lives (promote g) c}"
    by auto
  have inactive: "c \<notin> set (active (promote g))"
    using assms(7) act by (simp add: promote_sets assms(1))
  have "lives (promote g) c" using assms(8) nxt by simp
  then have three: "neighborsCount (promote g) x y = 3"
    using inactive by (simp add: lives_def assms(10))
  let ?k = "packCoord (fst (wrapCoord (width g) (height g) (x + nx) (y + ny)))
                      (snd (wrapCoord (width g) (height g) (x + nx) (y + ny)))"
  have "?k \<in> stimulated (promote g) c"
    using inactive three assms(9)
    by (auto simp: stimulated_def assms(10) split_def intro!: image_eqI [where x = "(nx, ny)"])
  then have "?k \<in> set (potentialNext g')"
    using simulate_stimulates [OF assms(1) nz assms(5,6)] by blast
  moreover have "unpackCoord (width g) (height g) ?k
      = wrapCoord (width g) (height g) (x + nx) (y + ny)"
    by (rule roundtrip [OF assms(2,3,4)])
  ultimately show ?thesis by blast
qed


lemma death_neighborhood:
  assumes "wf_game g" "0 < width g" "width g < 2 ^ 32" "0 < height g" "simulate g = Inr g'"
    and "c \<in> set (potential g')" "c \<in> set (active g')" "c \<notin> set (activeNext g')"
    and "(nx, ny) \<in> set neighborhood_offsets"
    and "unpackCoord (width g) (height g) c = (x, y)"
    and "0 \<le> x + nx"
  shows "\<exists>k \<in> set (potentialNext g').
           unpackCoord (width g) (height g) k = wrapCoord (width g) (height g) (x + nx) (y + ny)"
proof -
  have nz: "width g \<noteq> 0" "height g \<noteq> 0" using assms(2,4) by simp_all
  from simulate_props [OF assms(1) nz] assms(5) have
    act: "active g' = activeNext g" and
    nxt: "set (activeNext g') = {c \<in> set (potential g'). lives (promote g) c}"
    by auto
  have isactive: "c \<in> set (active (promote g))"
    using assms(7) act by (simp add: promote_sets assms(1))
  have "\<not> lives (promote g) c" using assms(6,8) nxt by simp
  then have cnt: "neighborsCount (promote g) x y \<noteq> 2 \<and> neighborsCount (promote g) x y \<noteq> 3"
    using isactive by (simp add: lives_def assms(10) Let_def)
  let ?k = "packCoord (x + nx) (y + ny)"
  have "?k \<in> stimulated (promote g) c"
    using isactive cnt assms(9)
    by (auto simp: stimulated_def assms(10) intro!: image_eqI [where x = "(nx, ny)"])
  then have "?k \<in> set (potentialNext g')"
    using simulate_stimulates [OF assms(1) nz assms(5,6)] by blast
  moreover have "unpackCoord (width g) (height g) ?k
      = wrapCoord (width g) (height g) (x + nx) (y + ny)"
  proof -
    have "x = fst (unpackCoord (width g) (height g) c)" by (simp add: assms(10))
    then have "x < width g"
      using assms(2,4) by (simp add: unpackCoord_def wrapCoord_pos)
    moreover have "nx \<le> 1" using assms(9) by (auto simp: neighborhood_offsets_def)
    ultimately have "x + nx < 2 ^ 32" using assms(3) by linarith
    with assms(11) show ?thesis by (rule unpack_pack)
  qed
  ultimately show ?thesis by blast
qed

subsection \<open>In reachable states the potential set holds the active keys\<close>

text \<open>
  \<open>insertCell\<close> adds the key it stores to the potential set as well, a birth is a key of
  the potential set, and the shared potential set is never emptied between resets. So
  in the states the program reaches no active key is missing from the potential set
  that a step iterates.
\<close>

lemma covered_insertCell: "covered g \<Longrightarrow> covered (insertCell x y g)"
  using insertCell_self_potential [of g x y]
  by (auto simp: covered_def insertCell_active insertCell_activeNext insertCell_potentialNext
        set_add_def)

lemma covered_insertCellPattern: "covered g \<Longrightarrow> covered (insertCellPattern x y pattern g)"
proof -
  have row: "covered s \<Longrightarrow> covered (fold (\<lambda>p s'.
                     if snd p = CHR ''#'' then insertCell (x + int (fst p)) (y + int l) s' else s')
                  cs s)" for cs l s
    by (induction cs arbitrary: s) (simp_all add: covered_insertCell)
  have "covered g \<Longrightarrow> covered (fold (\<lambda>q s.
             fold (\<lambda>p s'.
                     if snd p = CHR ''#'' then insertCell (x + int (fst p)) (y + int (fst q)) s' else s')
                  (enumerate 0 (snd q)) s) ls g)" for ls
    by (induction ls arbitrary: g) (simp_all add: row)
  then show "covered g \<Longrightarrow> covered (insertCellPattern x y pattern g)"
    by (simp add: insertCellPattern_def split_def)
qed

lemma covered_promote: "covered g \<Longrightarrow> covered (promote g)"
  by (simp add: covered_def wf_promote promote_sets)

lemma simulate_loop_covered:
  "wf_game g \<Longrightarrow> potentialCells g = potentialCellsNext g \<Longrightarrow>
   set (active g) \<subseteq> set (potential g) \<Longrightarrow> set (activeNext g) \<subseteq> set (potential g) \<Longrightarrow>
   simulate_loop i g = Inr g' \<Longrightarrow>
   set (active g') \<subseteq> set (potential g') \<and> set (activeNext g') \<subseteq> set (potential g')"
proof (induction i g rule: simulate_loop.induct)
  case (1 i g)
  show ?case
  proof (cases "i < length (potential g)")
    case False
    with "1.prems" show ?thesis by (simp add: simulate_loop_done)
  next
    case True
    define c where "c = potential g ! i"
    define g1 where "g1 = simulate_cell c g"
    have T: "i < length (store g (potentialCells g))" using True by (simp add: potential_def)
    have nz: "\<not> (width g = 0 \<or> height g = 0)"
    proof
      assume "width g = 0 \<or> height g = 0"
      with T "1.prems"(5) show False by (subst (asm) simulate_loop.simps) simp
    qed
    have eq: "simulate_cell (store g (potentialCells g) ! i) g = g1"
      by (simp add: g1_def c_def potential_def)
    have wf1: "wf_game g1" using "1.prems" by (simp add: g1_def wf_simulate_cell)
    have al: "potentialCells g1 = potentialCellsNext g1" using "1.prems"(2) by (simp add: g1_def)
    obtain new where p1: "potential g1 = potential g @ new"
      using simulate_cell_extends [of c g "potentialCells g"] by (auto simp: g1_def potential_def)
    have cm: "c \<in> set (potential g)" using True by (simp add: c_def)
    have a1: "set (active g1) \<subseteq> set (potential g1)"
      using "1.prems"(1,3) p1 by (auto simp: g1_def simulate_cell_active)
    have n1: "set (activeNext g1) \<subseteq> set (potential g1)"
      using "1.prems"(1,4) p1 cm
      by (auto simp: g1_def [symmetric] simulate_cell_activeNext [of g c, folded g1_def] set_add_def
            split: if_splits)
    have run: "simulate_loop (Suc i) g1 = Inr g'"
      using "1.prems"(5) True nz by (simp add: simulate_loop_step g1_def c_def)
    show ?thesis
      by (rule "1.IH" [OF T nz, unfolded eq, OF wf1 al a1 n1 run])
  qed
qed

lemma covered_simulate: "covered g \<Longrightarrow> simulate g = Inr g' \<Longrightarrow> covered g'"
proof -
  assume c: "covered g" and "simulate g = Inr g'"
  then obtain l where l: "simulate_loop 0 (promote g) = Inr l"
    and g': "g' = l\<lparr>generation := generation l + 1\<rparr>"
    by (auto simp: simulate_def split: sum.splits)
  have wf: "wf_game g" using c by (simp add: covered_def)
  have "set (active l) \<subseteq> set (potential l) \<and> set (activeNext l) \<subseteq> set (potential l)"
    using c by (intro simulate_loop_covered [OF wf_promote [OF wf] _ _ _ l])
      (simp_all add: promote_sets wf covered_def)
  moreover have "potentialNext l = potential l" "wf_game l"
    using simulate_loop_frame [OF l] wf_promote [OF wf]
    by (simp_all add: same_frame_def potential_def potentialNext_def wf_game_def)
  ultimately show "covered g'" by (simp add: g' covered_def)
qed

lemma reachable_covered: "reachable g \<Longrightarrow> covered g"
proof (induction rule: reachable.induct)
  case (start w h)
  have "wf_game (init_game w h)" by simp
  then show ?case
    by (simp add: covered_def active_def activeNext_def) (simp add: init_game_def)
next
  case (reset g)
  show ?case by (simp add: covered_def)
next
  case (resize g w h)
  then show ?case
    by (simp add: covered_def wf_game_def active_def activeNext_def potentialNext_def)
qed (simp_all add: covered_insertCell covered_insertCellPattern covered_simulate covered_promote)

subsection \<open>Example states\<close>

lemma lonely_wf: "wf_game lonely" "width lonely = 5" "height lonely = 5"
  by (simp_all add: lonely_def init_game_def)

lemma lonely_sets:
  "active lonely = [8589934594]" "activeNext lonely = [8589934594]"
  "set (potentialNext lonely) = {4294967297, 4294967298, 4294967299, 8589934593, 8589934594,
      8589934595, 12884901889, 12884901890, 12884901891}"
  by (simp_all add: lonely_def insertCell_active insertCell_activeNext insertCell_potentialNext
        set_add_def packCoord_def neighborhood_offsets_def)

lemma lonely_count: "neighborsCount (promote lonely) 2 2 = 0"
  by (simp add: neighborsCount_filter is_neighbor_def potentialNeighborOffsets_def lonely_wf
        promote_sets lonely_sets wrapCoord_pos packCoord_def)

lemma lonely_unpack: "unpackCoord 5 5 8589934594 = (2, 2)"
  by (simp add: unpackCoord_def wrapCoord_pos)

lemma lonely_lives: "\<not> lives (promote lonely) 8589934594"
  by (simp add: lives_def lonely_wf lonely_unpack lonely_count)

lemma lonely_count0: "neighborsCount lonely 2 2 = 0"
  by (simp add: neighborsCount_filter is_neighbor_def potentialNeighborOffsets_def lonely_wf
        lonely_sets wrapCoord_pos packCoord_def)

lemma orphan_wf: "wf_game orphan" "width orphan = 5" "height orphan = 5"
  by (simp_all add: orphan_def wf_game_def init_game_def)

lemma orphan_sets: "activeNext orphan = [7]" "potentialNext orphan = []"
  by (simp_all add: orphan_def activeNext_def potentialNext_def init_game_def store_add_to set_add_def)

subsection \<open>A single cell has no neighbours\<close>

text \<open>
  On a grid at least 2 by 2 and at most \<open>2^32\<close> wide, a cell inserted after a reset
  has neighbour count 0, whatever the arguments of \<open>insertCell\<close> were.
\<close>

lemma shift_mod_fixed:
  assumes "(cx + ox) mod w = cx" "0 \<le> cx" "cx < w" "2 \<le> w" "ox = - 1 \<or> ox = 0 \<or> ox = 1"
  shows "ox = (0::int)"
proof (rule ccontr)
  assume "ox \<noteq> 0"
  with assms(5) consider "ox = 1" | "ox = - 1" by blast
  then show False
  proof cases
    case 1
    show False
    proof (cases "cx + 1 < w")
      case True
      then have "(cx + 1) mod w = cx + 1" using assms(2) by (simp add: mod_pos_pos_trivial)
      with assms(1) 1 show False by simp
    next
      case False
      then have "cx + 1 = w" using assms(3) by simp
      then have "(cx + 1) mod w = 0" by simp
      with assms(1) 1 \<open>cx + 1 = w\<close> assms(4) show False by simp
    qed
  next
    case 2
    show False
    proof (cases "cx = 0")
      case True
      have "(- 1) mod w = w - 1" using assms(4) by (simp add: zmod_minus1)
      with assms(1) 2 True assms(4) show False by simp
    next
      case False
      then have "(cx - 1) mod w = cx - 1" using assms(2,3) by (simp add: mod_pos_pos_trivial)
      with assms(1) 2 show False by simp
    qed
  qed
qed

lemma isolated_count:
  assumes "2 \<le> width g" "width g \<le> 2 ^ 32" "2 \<le> height g"
  shows "neighborsCount (insertCell x y (resetGame g))
           (fst (unpackCoord (width g) (height g) (packCoord x y)))
           (snd (unpackCoord (width g) (height g) (packCoord x y))) = 0"
proof -
  define w h where "w = width g" and "h = height g"
  define c where "c = packCoord x y"
  define s where "s = insertCell x y (resetGame g)"
  define cx cy where "cx = fst (unpackCoord w h c)" and "cy = snd (unpackCoord w h c)"
  have pos: "0 < w" "0 < h" using assms by (simp_all add: w_def h_def)
  have cu: "unpackCoord w h c = (cx, cy)" by (simp add: cx_def cy_def)
  have rng: "0 \<le> cx" "cx < w" "0 \<le> cy" "cy < h"
    using pos by (simp_all add: cx_def cy_def unpackCoord_def wrapCoord_pos)
  have act: "active s = [c]"
    by (simp add: s_def c_def insertCell_active set_add_def)
  have dims: "width s = w" "height s = h" by (simp_all add: s_def w_def h_def)
  have no: "\<not> is_neighbor s cx cy p" if "p \<in> set potentialNeighborOffsets" for p
  proof
    assume "is_neighbor s cx cy p"
    then have eq: "packCoord ((cx + fst p) mod w) ((cy + snd p) mod h) = c"
      using pos by (simp add: is_neighbor_def dims act wrapCoord_pos)
    have lt: "(cx + fst p) mod w < w" and ge: "0 \<le> (cx + fst p) mod w"
      using pos by simp_all
    have "w \<le> 2 ^ 32" using assms(2) by (simp add: w_def)
    with lt have "(cx + fst p) mod w < 2 ^ 32" by linarith
    with ge have "0 \<le> (cx + fst p) mod w" "(cx + fst p) mod w < 2 ^ 32" by blast+
    then have "unpackCoord w h (packCoord ((cx + fst p) mod w) ((cy + snd p) mod h))
        = ((cx + fst p) mod w, (cy + snd p) mod h)"
      using pos by (simp add: unpack_pack wrapCoord_pos)
    with eq cu have fx: "(cx + fst p) mod w = cx" and fy: "(cy + snd p) mod h = cy" by simp_all
    have o: "(fst p = - 1 \<or> fst p = 0 \<or> fst p = 1) \<and> (snd p = - 1 \<or> snd p = 0 \<or> snd p = 1)"
      and nz: "p \<noteq> (0, 0)"
      using that by (auto simp: potentialNeighborOffsets_def)
    have "fst p = 0" using shift_mod_fixed [OF fx rng(1,2)] assms(1) o by (simp add: w_def)
    moreover have "snd p = 0" using shift_mod_fixed [OF fy rng(3,4)] assms(3) o by (simp add: h_def)
    ultimately show False using nz by (cases p) simp
  qed
  have "neighborsCount s cx cy = 0"
    unfolding neighborsCount_filter using no by (simp add: filter_empty_conv)
  then show ?thesis by (simp add: s_def cx_def cy_def w_def h_def c_def)
qed

lemma grid_wf: "wf_game grid" "width grid = 255" "height grid = 120"
  by (simp_all add: grid_def init_game_def)

lemma grid_sets: "active grid = []" "activeNext grid = []" "potentialNext grid = []"
  by (simp_all add: grid_def)

lemma packCoord_nonneg: "0 \<le> x \<Longrightarrow> 0 \<le> y \<Longrightarrow> 0 \<le> packCoord x y"
  by (simp add: packCoord_def)

lemma corner_block_wf: "wf_game corner_block" "width corner_block = 255" "height corner_block = 120"
  by (simp_all add: corner_block_def grid_wf)

lemma corner_block_active:
  "active corner_block = [506806140928, 506806140929, 511101108224, 511101108225]"
  "activeNext corner_block = [506806140928, 506806140929, 511101108224, 511101108225]"
  by (simp_all add: corner_block_def insertCell_active insertCell_activeNext grid_wf grid_sets
        set_add_def packCoord_def)

lemma corner_block_potential: "- 1 \<in> set (potentialNext corner_block)"
  by (simp add: corner_block_def insertCell_potentialNext grid_wf grid_sets
        neighborhood_offsets_def packCoord_def)

lemma corner_block_counts:
  "neighborsCount corner_block 0 118 = 3" "neighborsCount corner_block 1 118 = 3"
  "neighborsCount corner_block 0 119 = 3" "neighborsCount corner_block 1 119 = 3"
  by (simp_all add: neighborsCount_filter is_neighbor_def potentialNeighborOffsets_def
        corner_block_wf corner_block_active wrapCoord_pos packCoord_def)

lemma corner_block_born: "lives (promote corner_block) (- 1)"
proof -
  have "neighborsCount (promote corner_block) 0 119 = neighborsCount corner_block 0 119"
    by (rule neighborsCount_cong) (simp_all add: promote_sets corner_block_wf corner_block_active)
  moreover have "unpackCoord 255 120 (- 1) = (0, 119)"
    by (simp add: unpackCoord_def wrapCoord_pos)
  ultimately show ?thesis
    by (simp add: lives_def corner_block_wf corner_block_counts promote_sets corner_block_active)
qed

lemma corner_block_after:
  "active corner_block = [packCoord 0 118, packCoord 1 118, packCoord 0 119, packCoord 1 119] \<and>
   neighborsCount corner_block 0 118 = 3 \<and> neighborsCount corner_block 1 118 = 3 \<and>
   neighborsCount corner_block 0 119 = 3 \<and> neighborsCount corner_block 1 119 = 3 \<and>
   (case steps 2 corner_block of
      Inl e \<Rightarrow> False
    | Inr g' \<Rightarrow> - 1 \<in> set (active g') \<and> set (active g') \<noteq> set (active corner_block))"
proof -
  from simulate_props [of corner_block] obtain g1 where
    g1: "simulate corner_block = Inr g1" "wf_game g1" "width g1 = 255" "height g1 = 120"
      "\<exists>new. potential g1 = potentialNext corner_block @ new"
      "set (activeNext g1) = {c \<in> set (potential g1). lives (promote corner_block) c}"
    by (auto simp: corner_block_wf)
  have "- 1 \<in> set (potential g1)" using g1(5) corner_block_potential by auto
  then have born: "- 1 \<in> set (activeNext g1)" using g1(6) corner_block_born by simp
  from simulate_props [of g1] g1 obtain g2 where
    g2: "simulate g1 = Inr g2" "active g2 = activeNext g1"
    by auto
  have "steps 2 corner_block = Inr g2"
    using g1(1) g2(1) by (simp add: numeral_2_eq_2)
  moreover have "- 1 \<in> set (active g2)" using born g2(2) by simp
  moreover have "- 1 \<notin> set (active corner_block)" by (simp add: corner_block_active)
  ultimately show ?thesis
    by (auto simp: corner_block_counts corner_block_active packCoord_def)
qed

lemma seam_block_wf: "wf_game seam_block" "width seam_block = 255" "height seam_block = 120"
  by (simp_all add: seam_block_def grid_wf)

lemma seam_block_active:
  "active seam_block = [42949673214, 42949673215, 47244640510, 47244640511]"
  "activeNext seam_block = [42949673214, 42949673215, 47244640510, 47244640511]"
  by (simp_all add: seam_block_def insertCell_active insertCell_activeNext grid_wf grid_sets
        set_add_def packCoord_def)

lemma seam_block_potential: "42949673214 \<in> set (potentialNext seam_block)"
  by (simp add: seam_block_def insertCell_potentialNext grid_wf grid_sets
        neighborhood_offsets_def packCoord_def)

lemma seam_block_count: "neighborsCount (promote seam_block) 254 10 = 1"
  by (simp add: neighborsCount_filter is_neighbor_def potentialNeighborOffsets_def
        seam_block_wf promote_sets seam_block_active wrapCoord_pos packCoord_def)

lemma seam_block_dead: "\<not> lives (promote seam_block) 42949673214"
proof -
  have "unpackCoord 255 120 42949673214 = (254, 10)"
    by (simp add: unpackCoord_def wrapCoord_pos)
  then show ?thesis
    by (simp add: lives_def seam_block_wf seam_block_count)
qed

lemma seam_after:
  "case steps 2 seam_block of
      Inl e \<Rightarrow> False
    | Inr g' \<Rightarrow> packCoord 254 10 \<in> set (active seam_block) \<and> packCoord 254 10 \<notin> set (active g')"
proof -
  from simulate_props [of seam_block] obtain g1 where
    g1: "simulate seam_block = Inr g1" "wf_game g1" "width g1 = 255" "height g1 = 120"
      "set (activeNext g1) = {c \<in> set (potential g1). lives (promote seam_block) c}"
    by (auto simp: seam_block_wf)
  have gone: "42949673214 \<notin> set (activeNext g1)" using g1(5) seam_block_dead by simp
  from simulate_props [of g1] g1 obtain g2 where
    g2: "simulate g1 = Inr g2" "active g2 = activeNext g1"
    by auto
  have "steps 2 seam_block = Inr g2"
    using g1(1) g2(1) by (simp add: numeral_2_eq_2)
  then show ?thesis using gone g2(2)
    by (simp add: seam_block_active packCoord_def)
qed

lemma edge_cell_wf: "wf_game edge_cell" "width edge_cell = 255" "height edge_cell = 120"
  by (simp_all add: edge_cell_def grid_wf)

lemma edge_cell_sets:
  "active edge_cell = [8589934592]" "activeNext edge_cell = [8589934592]"
  "set (potentialNext edge_cell) =
     {- 1, 4294967296, 4294967297, 8589934592, 8589934593, 12884901888, 12884901889}"
  by (simp_all add: edge_cell_def insertCell_active insertCell_activeNext insertCell_potentialNext
        grid_wf grid_sets set_add_def packCoord_def neighborhood_offsets_def) auto

lemma edge_promoted:
  "width (promote edge_cell) = 255" "height (promote edge_cell) = 120"
  "active (promote edge_cell) = [8589934592]"
  by (simp_all add: edge_cell_wf promote_sets edge_cell_sets)

lemma edge_counts:
  "neighborsCount (promote edge_cell) 0 119 = 0" "neighborsCount (promote edge_cell) 0 1 = 1"
  "neighborsCount (promote edge_cell) 1 1 = 1" "neighborsCount (promote edge_cell) 0 2 = 0"
  "neighborsCount (promote edge_cell) 1 2 = 1" "neighborsCount (promote edge_cell) 0 3 = 1"
  "neighborsCount (promote edge_cell) 1 3 = 1"
  by (simp_all add: neighborsCount_filter is_neighbor_def potentialNeighborOffsets_def
        edge_promoted edge_cell_wf wrapCoord_pos packCoord_def)

lemma edge_unpack:
  "unpackCoord 255 120 (- 1) = (0, 119)" "unpackCoord 255 120 4294967296 = (0, 1)"
  "unpackCoord 255 120 4294967297 = (1, 1)" "unpackCoord 255 120 8589934592 = (0, 2)"
  "unpackCoord 255 120 8589934593 = (1, 2)" "unpackCoord 255 120 12884901888 = (0, 3)"
  "unpackCoord 255 120 12884901889 = (1, 3)"
  by (simp_all add: unpackCoord_def wrapCoord_pos)

lemma edge_stimulated:
  "stimulated (promote edge_cell) (- 1) = {}"
  "stimulated (promote edge_cell) 4294967296 = {}"
  "stimulated (promote edge_cell) 4294967297 = {}"
  "stimulated (promote edge_cell) 8589934593 = {}"
  "stimulated (promote edge_cell) 12884901888 = {}"
  "stimulated (promote edge_cell) 12884901889 = {}"
  "stimulated (promote edge_cell) 8589934592 =
     {- 1, 4294967296, 4294967297, 8589934592, 8589934593, 12884901888, 12884901889}"
  by (simp_all add: stimulated_def edge_promoted edge_cell_wf edge_unpack edge_counts
        neighborhood_offsets_def packCoord_def) auto

lemma edge_dead: "\<not> lives (promote edge_cell) 8589934592"
  by (simp add: lives_def edge_cell_wf edge_unpack edge_counts edge_promoted)

subsection \<open>A block inside the grid is a still life\<close>

text \<open>
  A 2 by 2 block whose neighbourhood lies inside the grid (no coordinate that
  \<open>insertCell\<close> packs leaves \<open>[0, width) \<times> [0, height)\<close>) keeps its four keys as the
  active set through any number of steps: the potential set stays the 4 by 4 area around
  it, the four cells have count 3 and every other cell of the area has count 1 or 2.
\<close>

lemma packCoord_eq_iff:
  assumes "0 \<le> a" "a < 2 ^ 32" "0 \<le> a'" "a' < 2 ^ 32"
  shows "(packCoord a b = packCoord a' b') = (a = a' \<and> b = b')"
proof
  assume e: "packCoord a b = packCoord a' b'"
  have "a = packCoord a b AND 0xffffffff" using assms by (simp only: packCoord_low)
  also have "\<dots> = a'" unfolding e using assms by (simp only: packCoord_low)
  finally have "a = a'" .
  moreover have "b = drop_bit 32 (packCoord a b)" using assms by (simp only: packCoord_high)
  then have "b = b'" unfolding e using assms by (simp only: packCoord_high)
  ultimately show "a = a' \<and> b = b'" by simp
qed simp

lemma near_mod:
  assumes "1 \<le> x" "x + 2 < w" "- 2 \<le> d" "d \<le> 3" "e = 0 \<or> e = 1"
  shows "((x + d) mod w = x + e) = (d = (e::int))"
proof -
  consider "x + d = - 1" | "x + d = w" | "0 \<le> x + d" "x + d < w"
    using assms by linarith
  then show ?thesis
  proof cases
    case 1
    have "(- 1) mod w = w - 1" using assms by (simp add: zmod_minus1)
    then show ?thesis using 1 assms by auto
  next
    case 2
    then have "(x + d) mod w = 0" by simp
    then show ?thesis using 2 assms by auto
  next
    case 3
    then have "(x + d) mod w = x + d" by (simp add: mod_pos_pos_trivial)
    then show ?thesis by auto
  qed
qed

lemma in_block_keys:
  assumes "inside g x y" "- 2 \<le> d" "d \<le> 3" "- 2 \<le> e" "e \<le> 3"
  shows "(packCoord ((x + d) mod width g) ((y + e) mod height g) \<in> block_keys x y)
         = ((d = 0 \<or> d = 1) \<and> (e = 0 \<or> e = 1))"
proof -
  let ?a = "(x + d) mod width g" and ?b = "(y + e) mod height g"
  have r: "1 \<le> x" "x + 2 < width g" "1 \<le> y" "y + 2 < height g" "width g \<le> 2 ^ 32"
    using assms(1) by (simp_all add: inside_def)
  have a: "0 \<le> ?a" "?a < 2 ^ 32"
    using r pos_mod_bound [of "width g" "x + d"] by (simp, linarith)
  have x0: "0 \<le> x" "x < 2 ^ 32" "0 \<le> x + 1" "x + 1 < 2 ^ 32" using r by linarith+
  have mx: "(?a = x) = (d = 0)" "(?a = x + 1) = (d = 1)"
    using near_mod [OF r(1,2) assms(2,3), of 0] near_mod [OF r(1,2) assms(2,3), of 1] by simp_all
  have my: "(?b = y) = (e = 0)" "(?b = y + 1) = (e = 1)"
    using near_mod [OF r(3,4) assms(4,5), of 0] near_mod [OF r(3,4) assms(4,5), of 1] by simp_all
  show ?thesis
    unfolding block_keys_def insert_iff empty_iff
      packCoord_eq_iff [OF a x0(1,2)] packCoord_eq_iff [OF a x0(3,4)]
    using mx my by auto
qed

lemma block_is_neighbor:
  assumes "inside s x y" "set (active s) = block_keys x y"
    and "- 1 \<le> i" "i \<le> 2" "- 1 \<le> j" "j \<le> 2" "p \<in> set potentialNeighborOffsets"
  shows "is_neighbor s (x + i) (y + j) p
         = ((i + fst p = 0 \<or> i + fst p = 1) \<and> (j + snd p = 0 \<or> j + snd p = 1))"
proof -
  have pos: "0 < width s" "0 < height s" using assms(1) by (simp_all add: inside_def)
  have o: "- 1 \<le> fst p" "fst p \<le> 1" "- 1 \<le> snd p" "snd p \<le> 1"
    using assms(7) by (auto simp: potentialNeighborOffsets_def)
  have b: "- 2 \<le> i + fst p" "i + fst p \<le> 3" "- 2 \<le> j + snd p" "j + snd p \<le> 3"
    using o assms(3-6) by linarith+
  show ?thesis
    unfolding is_neighbor_def assms(2) wrapCoord_pos [OF pos] fst_conv snd_conv add.assoc
    by (rule in_block_keys [OF assms(1) b])
qed

lemma block_count:
  assumes "inside s x y" "set (active s) = block_keys x y"
    and "- 1 \<le> i" "i \<le> 2" "- 1 \<le> j" "j \<le> 2"
  shows "neighborsCount s (x + i) (y + j)
         = length (filter (\<lambda>p. (i + fst p = 0 \<or> i + fst p = 1) \<and> (j + snd p = 0 \<or> j + snd p = 1))
                     potentialNeighborOffsets)"
  unfolding neighborsCount_filter
  by (rule arg_cong [where f = length], rule filter_cong [OF refl])
     (rule block_is_neighbor [OF assms])

lemma block_unpack:
  assumes "inside s x y" "- 1 \<le> i" "i \<le> 2" "- 1 \<le> j" "j \<le> 2"
  shows "unpackCoord (width s) (height s) (packCoord (x + i) (y + j)) = (x + i, y + j)"
proof -
  have r: "1 \<le> x" "x + 2 < width s" "1 \<le> y" "y + 2 < height s" "width s \<le> 2 ^ 32"
    using assms(1) by (simp_all add: inside_def)
  have a: "0 \<le> x + i" "x + i < width s" "0 \<le> y + j" "y + j < height s"
    using r assms(2-5) by linarith+
  then have "x + i < 2 ^ 32" using r(5) by linarith
  with a show ?thesis
    by (simp add: unpack_pack wrapCoord_pos mod_pos_pos_trivial)
qed

lemma block_member:
  assumes "inside s x y" "- 1 \<le> i" "i \<le> 2" "- 1 \<le> j" "j \<le> 2"
  shows "(packCoord (x + i) (y + j) \<in> block_keys x y) = ((i = 0 \<or> i = 1) \<and> (j = 0 \<or> j = 1))"
proof -
  have r: "1 \<le> x" "x + 2 < width s" "1 \<le> y" "y + 2 < height s"
    using assms(1) by (simp_all add: inside_def)
  have a: "0 \<le> x + i" "x + i < width s" "0 \<le> y + j" "y + j < height s"
    using r assms(2-5) by linarith+
  have "(packCoord ((x + i) mod width s) ((y + j) mod height s) \<in> block_keys x y)
        = ((i = 0 \<or> i = 1) \<and> (j = 0 \<or> j = 1))"
    using assms by (intro in_block_keys) simp_all
  then show ?thesis using a by (simp add: mod_pos_pos_trivial)
qed

lemma four_cases: "- 1 \<le> i \<Longrightarrow> i \<le> 2 \<Longrightarrow> i = - 1 \<or> i = 0 \<or> i = 1 \<or> i = (2::int)"
  by linarith

lemma block_lives:
  assumes "inside s x y" "set (active s) = block_keys x y"
    and "- 1 \<le> i" "i \<le> 2" "- 1 \<le> j" "j \<le> 2"
  shows "lives s (packCoord (x + i) (y + j)) = ((i = 0 \<or> i = 1) \<and> (j = 0 \<or> j = 1))"
    and "stimulated s (packCoord (x + i) (y + j)) = {}"
proof -
  note c = block_count [OF assms] and u = block_unpack [OF assms(1,3-6)]
    and m = block_member [OF assms(1,3-6)]
  from four_cases [OF assms(3,4)] four_cases [OF assms(5,6)]
  show "lives s (packCoord (x + i) (y + j)) = ((i = 0 \<or> i = 1) \<and> (j = 0 \<or> j = 1))"
    unfolding lives_def u split_conv Let_def c assms(2) m
    by (elim disjE) (simp_all add: potentialNeighborOffsets_def)
  from four_cases [OF assms(3,4)] four_cases [OF assms(5,6)]
  show "stimulated s (packCoord (x + i) (y + j)) = {}"
    unfolding stimulated_def u split_conv Let_def c assms(2) m
    by (elim disjE) (simp_all add: potentialNeighborOffsets_def)
qed

lemma block_area_cases:
  assumes "c \<in> block_area x y"
  obtains i j where "c = packCoord (x + i) (y + j)" "- 1 \<le> i" "i \<le> 2" "- 1 \<le> j" "j \<le> 2"
proof -
  from assms obtain p where p: "p \<in> set (List.product [- 1, 0, 1, 2] [- 1, 0, 1, 2 :: int])"
    and c: "c = (\<lambda>(i, j). packCoord (x + i) (y + j)) p"
    unfolding block_area_def by blast
  obtain i j where ij: "p = (i, j)" by (cases p)
  from p have "- 1 \<le> i \<and> i \<le> 2 \<and> - 1 \<le> j \<and> j \<le> 2" unfolding ij by auto
  then show thesis using that [of i j] c [unfolded ij split_conv] by blast
qed

lemma block_keys_area: "block_keys x y \<subseteq> block_area x y"
  by (auto simp: block_keys_def block_area_def)

lemma insert_block_still:
  assumes "inside g x y"
  shows "still x y (insert_block x y g)" "set (active (insert_block x y g)) = block_keys x y"
proof -
  have i: "inside (insert_block x y g) x y"
    using assms by (simp add: inside_def insert_block_def)
  have a: "set (activeNext (insert_block x y g)) = block_keys x y"
    "set (active (insert_block x y g)) = block_keys x y"
    by (auto simp: insert_block_def insertCell_activeNext insertCell_active set_add_def block_keys_def)
  have p: "set (potentialNext (insert_block x y g)) = block_area x y"
    by (simp add: insert_block_def insertCell_potentialNext neighborhood_offsets_def block_area_def)
       (auto simp: add.commute)
  show "still x y (insert_block x y g)" using i a p by (simp add: still_def insert_block_def)
  show "set (active (insert_block x y g)) = block_keys x y" by (rule a)
qed

lemma still_step:
  assumes "still x y s"
  shows "\<exists>s'. simulate s = Inr s' \<and> still x y s' \<and> set (active s') = block_keys x y"
proof -
  have wf: "wf_game s" and ins: "inside s x y" and an: "set (activeNext s) = block_keys x y"
    and pn: "set (potentialNext s) = block_area x y"
    using assms by (simp_all add: still_def)
  have nz: "width s \<noteq> 0" "height s \<noteq> 0" using ins by (auto simp: inside_def)
  let ?q = "promote s"
  have insq: "inside ?q x y" using ins by (simp add: inside_def)
  have actq: "set (active ?q) = block_keys x y" using an by (simp add: promote_sets wf)
  from simulate_props [OF wf nz] obtain s' new where
    s': "simulate s = Inr s'" "wf_game s'" "width s' = width s" "height s' = height s"
      "active s' = activeNext s" "potential s' = potentialNext s @ new"
      "potentialNext s' = potential s'"
      "set (activeNext s') = {c \<in> set (potential s'). lives ?q c}"
    by blast
  have closed: "stimulated ?q c \<subseteq> block_area x y" if "c \<in> block_area x y" for c
  proof -
    from that obtain i j where "c = packCoord (x + i) (y + j)" "- 1 \<le> i" "i \<le> 2" "- 1 \<le> j" "j \<le> 2"
      by (rule block_area_cases)
    then show ?thesis using block_lives(2) [OF insq actq] by simp
  qed
  have "set (potentialNext s') \<subseteq> block_area x y"
    by (rule simulate_closed [OF wf nz _ closed s'(1)]) (simp_all add: pn)
  moreover have "block_area x y \<subseteq> set (potentialNext s')"
    using s'(6,7) pn by auto
  ultimately have p': "set (potentialNext s') = block_area x y" by blast
  have "set (activeNext s') = block_keys x y"
  proof
    show "set (activeNext s') \<subseteq> block_keys x y"
    proof
      fix c assume "c \<in> set (activeNext s')"
      then have c: "c \<in> block_area x y" "lives ?q c" using s'(8,7) p' by auto
      from c(1) obtain i j where ij: "c = packCoord (x + i) (y + j)" "- 1 \<le> i" "i \<le> 2" "- 1 \<le> j" "j \<le> 2"
        by (rule block_area_cases)
      from c(2) have "(i = 0 \<or> i = 1) \<and> (j = 0 \<or> j = 1)"
        using block_lives(1) [OF insq actq ij(2-5)] by (simp add: ij(1))
      then show "c \<in> block_keys x y"
        using block_member [OF insq ij(2-5)] by (simp add: ij(1))
    qed
  next
    show "block_keys x y \<subseteq> set (activeNext s')"
    proof
      fix c assume cb: "c \<in> block_keys x y"
      then have "c \<in> block_area x y" using block_keys_area by blast
      then obtain i j where ij: "c = packCoord (x + i) (y + j)" "- 1 \<le> i" "i \<le> 2" "- 1 \<le> j" "j \<le> 2"
        by (rule block_area_cases)
      from cb have "(i = 0 \<or> i = 1) \<and> (j = 0 \<or> j = 1)"
        using block_member [OF insq ij(2-5)] by (simp add: ij(1))
      then have "lives ?q c"
        using block_lives(1) [OF insq actq ij(2-5)] by (simp add: ij(1))
      then show "c \<in> set (activeNext s')"
        using s'(8,7) p' \<open>c \<in> block_area x y\<close> by simp
    qed
  qed
  moreover have "inside s' x y" using ins s'(3,4) by (simp add: inside_def)
  ultimately have "still x y s'" using s'(2) p' by (simp add: still_def)
  then show ?thesis using s'(1,5) an by auto
qed

lemma still_steps:
  "still x y s \<Longrightarrow> set (active s) = block_keys x y \<Longrightarrow>
   \<exists>s'. steps n s = Inr s' \<and> still x y s' \<and> set (active s') = block_keys x y"
proof (induction n arbitrary: s)
  case 0
  then show ?case by simp
next
  case (Suc n)
  from still_step [OF Suc.prems(1)] obtain s1 where
    s1: "simulate s = Inr s1" "still x y s1" "set (active s1) = block_keys x y"
    by blast
  from Suc.IH [OF s1(2,3)] s1(1) show ?case by simp
qed

lemma interior_block_still:
  assumes "1 \<le> x" "x + 2 < width g" "1 \<le> y" "y + 2 < height g" "width g \<le> 2 ^ 32"
  shows "\<exists>g'. steps n (insert_block x y g) = Inr g' \<and>
           set (active g') = {packCoord x y, packCoord (x + 1) y, packCoord x (y + 1),
                              packCoord (x + 1) (y + 1)}"
proof -
  have "inside g x y" using assms by (simp add: inside_def)
  from still_steps [OF insert_block_still [OF this], of n] show ?thesis
    by (auto simp: block_keys_def)
qed

subsection \<open>The rule on keys, and on cells when the keys are canonical\<close>

text \<open>
  In a call of \<open>simulate\<close> every key of the potential set under iteration, the keys it
  held at the start included, is in the next active set exactly when the rule holds for
  it with the count \<open>neighborsCount\<close> takes; evaluating a key that is not active and
  whose count is not 3 changes nothing. When every active key is canonical, that count
  is the count of live neighbours on the torus.
\<close>

lemma simulate_rule_keys:
  assumes "wf_game g" "width g \<noteq> 0" "height g \<noteq> 0"
  shows "\<exists>g'. simulate g = Inr g' \<and>
          set (potentialNext g) \<subseteq> set (potential g') \<and>
          (\<forall>cell \<in> set (potential g').
             (cell \<in> set (activeNext g')) =
             (let (x, y) = unpackCoord (width g) (height g) cell;
                  numNeighbors = neighborsCount (promote g) x y
              in (cell \<in> set (active (promote g)) \<and> (numNeighbors = 2 \<or> numNeighbors = 3)) \<or>
                 (cell \<notin> set (active (promote g)) \<and> numNeighbors = 3))) \<and>
          (\<forall>s cell. cell \<notin> set (active s) \<and>
             neighborsCount s (fst (unpackCoord (width s) (height s) cell))
                              (snd (unpackCoord (width s) (height s) cell)) \<noteq> 3
             \<longrightarrow> simulate_cell cell s = s)"
proof -
  from simulate_props [OF assms] obtain g' new where
    run: "simulate g = Inr g'" and pot: "potential g' = potentialNext g @ new" and
    nxt: "set (activeNext g') = {c \<in> set (potential g'). lives (promote g) c}"
    by blast
  have idle: "simulate_cell cell s = s"
    if "cell \<notin> set (active s) \<and>
        neighborsCount s (fst (unpackCoord (width s) (height s) cell))
                         (snd (unpackCoord (width s) (height s) cell)) \<noteq> 3" for s cell
    using that by (simp add: simulate_cell_def Let_def split_def active_def)
  have "set (potentialNext g) \<subseteq> set (potential g')" using pot by simp
  moreover have "\<forall>cell \<in> set (potential g').
             (cell \<in> set (activeNext g')) =
             (let (x, y) = unpackCoord (width g) (height g) cell;
                  numNeighbors = neighborsCount (promote g) x y
              in (cell \<in> set (active (promote g)) \<and> (numNeighbors = 2 \<or> numNeighbors = 3)) \<or>
                 (cell \<notin> set (active (promote g)) \<and> numNeighbors = 3))"
    unfolding nxt by (simp add: lives_def)
  ultimately show ?thesis using run idle by blast
qed

lemma counts_agree:
  assumes "0 < width g" "width g \<le> 2 ^ 32" "0 < height g" "canonical g"
  shows "neighborsCount g cx cy = live_torus_count g cx cy"
proof -
  have "is_neighbor g cx cy p =
        (wrapCoord (width g) (height g) (cx + fst p) (cy + snd p)
           \<in> unpackCoord (width g) (height g) ` set (active g))" for p
  proof
    assume "is_neighbor g cx cy p"
    then have "unpackCoord (width g) (height g)
        (packCoord (fst (wrapCoord (width g) (height g) (cx + fst p) (cy + snd p)))
                   (snd (wrapCoord (width g) (height g) (cx + fst p) (cy + snd p))))
        \<in> unpackCoord (width g) (height g) ` set (active g)"
      unfolding is_neighbor_def by (rule imageI)
    then show "wrapCoord (width g) (height g) (cx + fst p) (cy + snd p)
           \<in> unpackCoord (width g) (height g) ` set (active g)"
      by (simp only: roundtrip [OF assms(1,2,3)])
  next
    assume "wrapCoord (width g) (height g) (cx + fst p) (cy + snd p)
           \<in> unpackCoord (width g) (height g) ` set (active g)"
    then obtain k where k: "k \<in> set (active g)"
      "wrapCoord (width g) (height g) (cx + fst p) (cy + snd p) = unpackCoord (width g) (height g) k"
      by blast
    from assms(4) k(1) have "packCoord (fst (unpackCoord (width g) (height g) k))
                  (snd (unpackCoord (width g) (height g) k)) = k"
      by (simp add: canonical_def)
    with k show "is_neighbor g cx cy p" by (simp add: is_neighbor_def)
  qed
  then have "is_neighbor g cx cy =
      (\<lambda>p. wrapCoord (width g) (height g) (cx + fst p) (cy + snd p)
            \<in> unpackCoord (width g) (height g) ` set (active g))"
    by (rule ext)
  then show ?thesis
    by (simp add: neighborsCount_filter live_torus_count_def split_def)
qed

lemma simulate_rule_canonical:
  assumes "wf_game g" "0 < width g" "width g \<le> 2 ^ 32" "0 < height g" "canonical (promote g)"
  shows "\<exists>g'. simulate g = Inr g' \<and>
          (\<forall>cell \<in> set (potential g').
             (cell \<in> set (activeNext g')) =
             (let (x, y) = unpackCoord (width g) (height g) cell;
                  n = live_torus_count (promote g) x y
              in (cell \<in> set (active (promote g)) \<and> (n = 2 \<or> n = 3)) \<or>
                 (cell \<notin> set (active (promote g)) \<and> n = 3)))"
proof -
  have nz: "width g \<noteq> 0" "height g \<noteq> 0" using assms(2,4) by simp_all
  have eq: "neighborsCount (promote g) x y = live_torus_count (promote g) x y" for x y
    using assms by (intro counts_agree) simp_all
  from simulate_props [OF assms(1) nz] obtain g' where
    "simulate g = Inr g'"
    "set (activeNext g') = {c \<in> set (potential g'). lives (promote g) c}"
    by blast
  then show ?thesis by (auto simp: lives_def eq)
qed

lemma seam_torus_count: "live_torus_count (promote seam_block) 254 10 = 3"
  by (simp add: live_torus_count_def potentialNeighborOffsets_def seam_block_wf promote_sets
        seam_block_active unpackCoord_def wrapCoord_pos)

section \<open>The claims\<close>

text \<open>
  C1 at a failing input. On the 255 by 120 grid the block across the seam is inserted
  (\<open>insertCell\<close> for \<open>(254, 10)\<close>, \<open>(255, 10)\<close>, \<open>(254, 11)\<close>, \<open>(255, 11)\<close>) and one
  step is run. The key of the cell \<open>(254, 10)\<close> is in the potential set and in the current
  active set, and three of its eight neighbours on the torus are live: \<open>(0, 10)\<close>,
  \<open>(254, 11)\<close> and \<open>(0, 11)\<close>. \<open>neighborsCount\<close> finds one of them only, because the
  cells of column 0 are stored under the keys packed from \<open>x = 255\<close>, and the key is not
  placed into the next active set.
\<close>

theorem rule_misses_live_neighbors:
  "packCoord 254 10 \<in> set (potential (promote seam_block)) \<and>
   packCoord 254 10 \<in> set (active (promote seam_block)) \<and>
   unpackCoord 255 120 (packCoord 254 10) = (254, 10) \<and>
   live_torus_count (promote seam_block) 254 10 = 3 \<and>
   neighborsCount (promote seam_block) 254 10 = 1 \<and>
   (case simulate seam_block of
      Inl e \<Rightarrow> False
    | Inr g' \<Rightarrow> packCoord 254 10 \<in> set (potential g') \<and> packCoord 254 10 \<in> set (active g') \<and>
               packCoord 254 10 \<notin> set (activeNext g'))"
proof -
  have k: "packCoord 254 10 = 42949673214" by (simp add: packCoord_def)
  have u: "unpackCoord 255 120 42949673214 = (254, 10)"
    by (simp add: unpackCoord_def wrapCoord_pos)
  have p: "42949673214 \<in> set (potential (promote seam_block))"
    by (simp add: promote_sets seam_block_wf seam_block_potential)
  have a: "42949673214 \<in> set (active (promote seam_block))"
    by (simp add: promote_sets seam_block_wf seam_block_active)
  from simulate_props [of seam_block] obtain g' new where
    g': "simulate seam_block = Inr g'" "active g' = activeNext seam_block"
      "potential g' = potentialNext seam_block @ new"
      "set (activeNext g') = {c \<in> set (potential g'). lives (promote seam_block) c}"
    by (auto simp: seam_block_wf)
  have "42949673214 \<in> set (potential g')" using g'(3) seam_block_potential by simp
  moreover have "42949673214 \<in> set (active g')" using g'(2) by (simp add: seam_block_active)
  moreover have "42949673214 \<notin> set (activeNext g')" using g'(4) seam_block_dead by simp
  ultimately show ?thesis
    using g'(1) p a u by (simp add: k seam_torus_count seam_block_count)
qed

text \<open>
  C2 at two failing inputs, on the empty 255 by 120 grid.

  The block in the corner: the four cells \<open>(0, 118)\<close>, \<open>(1, 118)\<close>, \<open>(0, 119)\<close>,
  \<open>(1, 119)\<close> are inserted; each has neighbour count 3. \<open>insertCell(0, 118)\<close> also
  adds the key \<open>-1\<close> (packed from \<open>x - 1 = -1\<close>) to the potential set. That key unpacks
  to \<open>(4294967295 mod 255, 119) = (0, 119)\<close>, a cell of the block with count 3, and the
  key itself is not active: the first step takes it for a birth, and after the second
  step the current active set holds five keys.

  The block across the seam: \<open>insertCell\<close> is called for \<open>(254, 10)\<close>, \<open>(255, 10)\<close>,
  \<open>(254, 11)\<close>, \<open>(255, 11)\<close>, which wrap to the cells \<open>(254, 10)\<close>, \<open>(0, 10)\<close>,
  \<open>(254, 11)\<close>, \<open>(0, 11)\<close>, a 2 by 2 block on the torus. The keys of the column
  \<open>x = 255\<close> are stored unwrapped, \<open>neighborsCount\<close> does not find them, and after two
  steps the cell \<open>(254, 10)\<close> has left the current active set.
\<close>

theorem block_not_still:
  "active corner_block = [packCoord 0 118, packCoord 1 118, packCoord 0 119, packCoord 1 119] \<and>
   neighborsCount corner_block 0 118 = 3 \<and> neighborsCount corner_block 1 118 = 3 \<and>
   neighborsCount corner_block 0 119 = 3 \<and> neighborsCount corner_block 1 119 = 3 \<and>
   (case steps 2 corner_block of
      Inl e \<Rightarrow> False
    | Inr g' \<Rightarrow> - 1 \<in> set (active g') \<and> set (active g') \<noteq> set (active corner_block)) \<and>
   map (\<lambda>(x, y). wrapCoord 255 120 x y) [(254, 10), (255, 10), (254, 11), (255, 11)]
     = [(254, 10), (0, 10), (254, 11), (0, 11)] \<and>
   active seam_block = [packCoord 254 10, packCoord 255 10, packCoord 254 11, packCoord 255 11] \<and>
   (case steps 2 seam_block of
      Inl e \<Rightarrow> False
    | Inr g' \<Rightarrow> packCoord 254 10 \<in> set (active seam_block) \<and> packCoord 254 10 \<notin> set (active g'))"
proof -
  have "map (\<lambda>(x, y). wrapCoord 255 120 x y) [(254, 10), (255, 10), (254, 11), (255, 11)]
     = [(254, 10), (0, 10), (254, 11), (0, 11)]"
    by (simp add: wrapCoord_pos)
  moreover have "active seam_block =
      [packCoord 254 10, packCoord 255 10, packCoord 254 11, packCoord 255 11]"
    by (simp add: seam_block_active packCoord_def)
  ultimately show ?thesis using corner_block_after seam_after by blast
qed

text \<open>
  C3. In a call of \<open>simulate\<close> the next active set starts empty, and every key it holds
  when the call returns is a key of the potential set that was iterated. So a key of
  the current active set that the potential set does not hold is not in the next active
  set.
\<close>

theorem next_active_from_potential:
  assumes "wf_game g" "width g \<noteq> 0" "height g \<noteq> 0"
  shows "\<exists>g'. simulate g = Inr g' \<and>
          activeNext (promote g) = [] \<and>
          set (activeNext g') \<subseteq> set (potential g') \<and>
          (\<forall>cell \<in> set (active g'). cell \<notin> set (potential g') \<longrightarrow> cell \<notin> set (activeNext g'))"
proof -
  from simulate_props [OF assms] obtain g' where
    "simulate g = Inr g'" "set (activeNext g') = {c \<in> set (potential g'). lives (promote g) c}"
    by blast
  then show ?thesis using assms(1) by (auto simp: promote_sets)
qed

theorem next_active_from_potential_witness:
  "wf_game orphan \<and> width orphan \<noteq> 0 \<and> height orphan \<noteq> 0 \<and>
   (\<exists>g'. simulate orphan = Inr g' \<and> 7 \<in> set (active g') \<and> 7 \<notin> set (potential g') \<and>
         7 \<notin> set (activeNext g'))"
proof -
  let ?g' = "(promote orphan)\<lparr>generation := generation orphan + 1\<rparr>"
  have run: "simulate orphan = Inr ?g'"
    by (simp add: simulate_idle orphan_wf orphan_sets)
  have a: "7 \<in> set (active ?g')" and p: "7 \<notin> set (potential ?g')"
    by (simp_all add: promote_sets orphan_wf orphan_sets)
  from next_active_from_potential [of orphan] run
  have "\<forall>cell \<in> set (active ?g'). cell \<notin> set (potential ?g') \<longrightarrow> cell \<notin> set (activeNext ?g')"
    by (simp add: orphan_wf)
  with a p have "7 \<notin> set (activeNext ?g')" by blast
  with run a p show ?thesis by (simp add: orphan_wf)
qed

text \<open>
  C4, as stated: after a reset, one \<open>insertCell\<close> and one \<open>simulate\<close>, the published
  current active set no longer holds the cell. It still does: on a 5 by 5 grid, with the
  cell at \<open>(2, 2)\<close>, the current active set after the call holds the key.
\<close>

theorem isolated_cell_counterexample:
  "case simulate (insertCell 2 2 (resetGame (init_game 5 5))) of
     Inl e \<Rightarrow> False
   | Inr g' \<Rightarrow> packCoord 2 2 \<in> set (active g')"
proof -
  from simulate_props [of lonely] obtain g' where
    "simulate lonely = Inr g'" "active g' = activeNext lonely"
    by (auto simp: lonely_wf)
  then show ?thesis
    by (simp add: lonely_def [symmetric] lonely_sets packCoord_def)
qed

text \<open>
  C4, amended: after a reset and one \<open>insertCell x y\<close> of a cell with neighbour count 0,
  one call of \<open>simulate\<close> leaves the key in the current active set and out of the next
  active set; after a second call the current active set no longer holds it.
\<close>

theorem isolated_cell_dies:
  assumes "width g \<noteq> 0" "height g \<noteq> 0"
    and "neighborsCount (insertCell x y (resetGame g))
           (fst (unpackCoord (width g) (height g) (packCoord x y)))
           (snd (unpackCoord (width g) (height g) (packCoord x y))) = 0"
  shows "\<exists>g1. simulate (insertCell x y (resetGame g)) = Inr g1 \<and>
           packCoord x y \<in> set (active g1) \<and> packCoord x y \<notin> set (activeNext g1) \<and>
           (\<exists>g2. simulate g1 = Inr g2 \<and> packCoord x y \<notin> set (active g2))"
proof -
  define s where "s = insertCell x y (resetGame g)"
  define c where "c = packCoord x y"
  have wf: "wf_game s" and dims: "width s = width g" "height s = height g"
    by (simp_all add: s_def)
  have sets: "active s = [c]" "activeNext s = [c]"
    by (simp_all add: s_def c_def insertCell_active insertCell_activeNext set_add_def)
  have cnt: "neighborsCount (promote s) x' y' = neighborsCount s x' y'" for x' y'
    by (rule neighborsCount_cong) (simp_all add: promote_sets wf sets)
  have dead: "\<not> lives (promote s) c"
    using assms(3) wf
    by (simp add: lives_def split_def Let_def cnt dims s_def [symmetric] c_def [symmetric])
  from simulate_props [OF wf] assms(1,2) dims obtain g1 where
    g1: "simulate s = Inr g1" "wf_game g1" "width g1 = width g" "height g1 = height g"
      "active g1 = activeNext s"
      "set (activeNext g1) = {k \<in> set (potential g1). lives (promote s) k}"
    by auto
  from simulate_props [of g1] g1 assms(1,2) obtain g2 where
    g2: "simulate g1 = Inr g2" "active g2 = activeNext g1"
    by auto
  have "c \<notin> set (activeNext g1)" using g1(6) dead by simp
  with g1 g2 sets show ?thesis
    unfolding s_def [symmetric] c_def [symmetric] by auto
qed

theorem isolated_cell_dies_witness:
  "width (init_game 5 5) \<noteq> 0 \<and> height (init_game 5 5) \<noteq> 0 \<and>
   neighborsCount (insertCell 2 2 (resetGame (init_game 5 5)))
     (fst (unpackCoord 5 5 (packCoord 2 2))) (snd (unpackCoord 5 5 (packCoord 2 2))) = 0 \<and>
   (\<exists>g1. simulate (insertCell 2 2 (resetGame (init_game 5 5))) = Inr g1 \<and>
           packCoord 2 2 \<in> set (active g1) \<and> packCoord 2 2 \<notin> set (activeNext g1) \<and>
           (\<exists>g2. simulate g1 = Inr g2 \<and> packCoord 2 2 \<notin> set (active g2)))"
proof -
  have d: "width (init_game 5 5) = 5" "height (init_game 5 5) = 5"
    by (simp_all add: init_game_def)
  have u: "unpackCoord 5 5 (packCoord 2 2) = (2, 2)"
    by (simp add: packCoord_def lonely_unpack)
  have n: "neighborsCount (insertCell 2 2 (resetGame (init_game 5 5)))
     (fst (unpackCoord 5 5 (packCoord 2 2))) (snd (unpackCoord 5 5 (packCoord 2 2))) = 0"
    by (simp add: u lonely_def [symmetric] lonely_count0)
  from isolated_cell_dies [of "init_game 5 5" 2 2] n d
  show ?thesis by simp
qed

text \<open>
  C5. When \<open>simulate\<close> returns, the current active set is the object that was the next
  active set before the call, with the contents it had then. What the call computed
  (the keys of the potential set that the rule keeps or creates) is in the new next
  active set, a different object, and becomes the current active set with the following
  call.
\<close>

theorem publication_lag:
  assumes "wf_game g" "width g \<noteq> 0" "height g \<noteq> 0"
  shows "\<exists>g'. simulate g = Inr g' \<and>
          activeCells g' = activeCellsNext g \<and> active g' = activeNext g \<and>
          activeCellsNext g' \<noteq> activeCells g' \<and>
          set (activeNext g') = {cell \<in> set (potential g'). lives (promote g) cell} \<and>
          (\<exists>g''. simulate g' = Inr g'' \<and> active g'' = activeNext g')"
proof -
  from simulate_props [OF assms] obtain g' where
    g': "simulate g = Inr g'" "wf_game g'" "width g' = width g" "height g' = height g"
      "activeCells g' = activeCellsNext g" "active g' = activeNext g"
      "set (activeNext g') = {c \<in> set (potential g'). lives (promote g) c}"
    by blast
  from simulate_props [of g'] g' assms obtain g'' where
    "simulate g' = Inr g''" "active g'' = activeNext g'"
    by auto
  moreover have "activeCellsNext g' \<noteq> activeCells g'"
    using g'(2) by (auto simp: wf_game_def)
  ultimately show ?thesis using g' by blast
qed

theorem publication_lag_witness:
  "wf_game lonely \<and> width lonely \<noteq> 0 \<and> height lonely \<noteq> 0 \<and>
   (\<exists>g'. simulate lonely = Inr g' \<and> active g' = [8589934594] \<and>
         8589934594 \<notin> set (activeNext g') \<and>
         (\<exists>g''. simulate g' = Inr g'' \<and> 8589934594 \<notin> set (active g'')))"
proof -
  from publication_lag [of lonely] obtain g' g'' where
    "simulate lonely = Inr g'" "active g' = activeNext lonely"
    "set (activeNext g') = {cell \<in> set (potential g'). lives (promote lonely) cell}"
    "simulate g' = Inr g''" "active g'' = activeNext g'"
    by (auto simp: lonely_wf)
  then show ?thesis
    using lonely_lives by (auto simp: lonely_wf lonely_sets)
qed




text \<open>
  C7 at a failing input. On the empty 255 by 120 grid, \<open>insertCell(0, 0)\<close> puts the key
  \<open>-1\<close> (packed from \<open>x - 1 = -1\<close>) into the next potential set, and
  \<open>insertCell(255, 0)\<close> puts the key packed from \<open>x = 255 = width\<close> into the active
  set; neither is the key of a coordinate in \<open>[0, 255) \<times> [0, 120)\<close>.
\<close>

theorem key_out_of_range:
  "- 1 \<in> set (potentialNext (insertCell 0 0 (resetGame (init_game 255 120)))) \<and>
   - 1 \<notin> (\<lambda>(x, y). packCoord x y) ` ({0 ..< 255} \<times> {0 ..< 120}) \<and>
   packCoord 255 0 \<in> set (active (insertCell 255 0 (resetGame (init_game 255 120)))) \<and>
   packCoord 255 0 \<notin> (\<lambda>(x, y). packCoord x y) ` ({0 ..< 255} \<times> {0 ..< 120})"
proof -
  have "- 1 \<in> set (potentialNext (insertCell 0 0 grid))"
    by (simp add: insertCell_potentialNext grid_wf grid_sets neighborhood_offsets_def packCoord_def)
  moreover have "- 1 \<notin> (\<lambda>(x, y). packCoord x y) ` ({0 ..< 255} \<times> {0 ..< 120})"
    using packCoord_nonneg by fastforce
  moreover have "packCoord 255 0 \<in> set (active (insertCell 255 0 grid))"
    by (simp add: insertCell_active grid_wf grid_sets set_add_def)
  moreover have "packCoord 255 0 \<notin> (\<lambda>(x, y). packCoord x y) ` ({0 ..< 255} \<times> {0 ..< 120})"
  proof
    assume "packCoord 255 0 \<in> (\<lambda>(x, y). packCoord x y) ` ({0 ..< 255} \<times> {0 ..< 120})"
    then obtain x y where r: "0 \<le> x" "x < 255" and e: "packCoord 255 0 = packCoord x y"
      by auto
    from r have "packCoord x y AND 0xffffffff = x" by (intro packCoord_low) simp_all
    moreover have "packCoord 255 0 AND 0xffffffff = 255" by (intro packCoord_low) simp_all
    ultimately show False using e r by simp
  qed
  ultimately show ?thesis by (simp add: grid_def)
qed

text \<open>
  C8 at a failing input. On the empty 255 by 120 grid the cell \<open>(0, 2)\<close> is inserted and
  one step is run. The cell dies in that step (it is in the current active set and not
  in the next one). Its neighbour on the torus in column \<open>-1\<close>, the cell \<open>(254, 2)\<close>,
  is not in the potential set afterwards, neither under its own key nor under any key
  that unpacks to it: the death branch packs \<open>x - 1 = -1\<close> unwrapped, which gives the key
  \<open>-1\<close>.
\<close>

theorem death_misses_neighbor:
  "case simulate (insertCell 0 2 (resetGame (init_game 255 120))) of
     Inl e \<Rightarrow> False
   | Inr g' \<Rightarrow>
       packCoord 0 2 \<in> set (active g') \<and> packCoord 0 2 \<notin> set (activeNext g') \<and>
       wrapCoord 255 120 (0 + (- 1)) (2 + 0) = (254, 2) \<and>
       (254, 2) \<notin> unpackCoord 255 120 ` set (potentialNext g') \<and>
       packCoord 254 2 \<notin> set (potentialNext g')"
proof -
  let ?S = "{- 1, 4294967296, 4294967297, 8589934592, 8589934593, 12884901888, 12884901889} :: int set"
  from simulate_props [of edge_cell] obtain g' where
    g': "simulate edge_cell = Inr g'" "active g' = activeNext edge_cell"
      "set (activeNext g') = {c \<in> set (potential g'). lives (promote edge_cell) c}"
    by (auto simp: edge_cell_wf)
  have closed: "stimulated (promote edge_cell) c \<subseteq> ?S" if "c \<in> ?S" for c
    using that by (elim insertE emptyE) (simp_all only: edge_stimulated, simp_all)
  have p: "set (potentialNext g') \<subseteq> ?S"
    by (rule simulate_closed [OF _ _ _ _ closed g'(1)]) (simp_all add: edge_cell_wf edge_cell_sets)
  have "unpackCoord 255 120 ` ?S = {(0, 119), (0, 1), (1, 1), (0, 2), (1, 2), (0, 3), (1, 3)}"
    by (simp add: edge_unpack)
  then have "(254, 2) \<notin> unpackCoord 255 120 ` ?S" by simp
  with p have far: "(254, 2) \<notin> unpackCoord 255 120 ` set (potentialNext g')" by blast
  have key: "packCoord 254 2 \<notin> ?S" by (simp add: packCoord_def)
  with p have nokey: "packCoord 254 2 \<notin> set (potentialNext g')" by blast
  have "packCoord 0 2 = 8589934592" by (simp add: packCoord_def)
  moreover have "8589934592 \<notin> set (activeNext g')" using g'(3) edge_dead by simp
  moreover have "wrapCoord 255 120 (0 + (- 1)) (2 + 0) = (254, 2)" by (simp add: wrapCoord_pos)
  ultimately show ?thesis
    using g'(1,2) far nokey by (simp add: edge_cell_def [symmetric] grid_def [symmetric] edge_cell_sets)
qed

text \<open>
  C9 at a failing input. On the empty 255 by 120 grid, \<open>insertCell(-1, 0)\<close> stores the
  key \<open>-1\<close>: the key of the wrapped coordinate \<open>(254, 0)\<close> is not in the active set, and
  the stored key unpacks to \<open>(0, 119)\<close>, another cell. \<open>insertCell(255, 0)\<close> stores the
  key 255, not the key 0 of the wrapped coordinate \<open>(0, 0)\<close>, and the neighbour count of
  the adjacent cell \<open>(1, 0)\<close> stays 0.
\<close>

theorem insertCell_unwrapped:
  "active (insertCell (- 1) 0 (resetGame (init_game 255 120))) = [- 1] \<and>
   activeNext (insertCell (- 1) 0 (resetGame (init_game 255 120))) = [- 1] \<and>
   wrapCoord 255 120 (- 1) 0 = (254, 0) \<and>
   packCoord 254 0 \<notin> set (active (insertCell (- 1) 0 (resetGame (init_game 255 120)))) \<and>
   unpackCoord 255 120 (- 1) = (0, 119) \<and>
   active (insertCell 255 0 (resetGame (init_game 255 120))) = [255] \<and>
   wrapCoord 255 120 255 0 = (0, 0) \<and>
   packCoord 0 0 \<notin> set (active (insertCell 255 0 (resetGame (init_game 255 120)))) \<and>
   neighborsCount (insertCell 255 0 (resetGame (init_game 255 120))) 1 0 = 0"
proof -
  have "active (insertCell (- 1) 0 grid) = [- 1]" "activeNext (insertCell (- 1) 0 grid) = [- 1]"
    "active (insertCell 255 0 grid) = [255]"
    by (simp_all add: insertCell_active insertCell_activeNext grid_wf grid_sets set_add_def packCoord_def)
  moreover have "wrapCoord 255 120 (- 1) 0 = (254, 0)" "wrapCoord 255 120 255 0 = (0, 0)"
    by (simp_all add: wrapCoord_pos)
  moreover have "unpackCoord 255 120 (- 1) = (0, 119)"
    by (simp add: unpackCoord_def wrapCoord_pos)
  moreover have "neighborsCount (insertCell 255 0 grid) 1 0 = 0"
    by (simp add: neighborsCount_filter is_neighbor_def potentialNeighborOffsets_def grid_wf
        insertCell_active grid_sets set_add_def wrapCoord_pos packCoord_def)
  ultimately show ?thesis by (simp add: grid_def packCoord_def)
qed

text \<open>
  C10. From any state, \<open>resetGame\<close> leaves the four sets empty and the generation
  counter at 0; one \<open>simulate\<close> after it returns, leaves the four sets empty and sets the
  counter to 1. Every call of \<open>simulate\<close> that returns has added exactly 1 to the
  counter, and on a well-formed state with non-zero dimensions the call does return.
\<close>

theorem reset_then_step:
  "active (resetGame g) = [] \<and> activeNext (resetGame g) = [] \<and>
   potential (resetGame g) = [] \<and> potentialNext (resetGame g) = [] \<and>
   generation (resetGame g) = 0 \<and>
   (\<exists>g'. simulate (resetGame g) = Inr g' \<and> generation g' = 1 \<and>
         active g' = [] \<and> activeNext g' = [] \<and> potential g' = [] \<and> potentialNext g' = []) \<and>
   (simulate s = Inr s' \<longrightarrow> generation s' = generation s + 1) \<and>
   (wf_game s \<and> width s \<noteq> 0 \<and> height s \<noteq> 0 \<longrightarrow>
      (\<exists>s'. simulate s = Inr s' \<and> generation s' = generation s + 1))"
proof -
  have "wf_game s \<and> width s \<noteq> 0 \<and> height s \<noteq> 0 \<longrightarrow>
      (\<exists>s'. simulate s = Inr s' \<and> generation s' = generation s + 1)"
    using simulate_props [of s] by blast
  then show ?thesis
    by (simp add: simulate_resetGame promote_sets simulate_generation)
qed

theorem reset_then_step_witness:
  "simulate (resetGame (init_game 5 5)) = Inr ((promote (resetGame (init_game 5 5)))\<lparr>generation := 1\<rparr>) \<and>
   generation ((promote (resetGame (init_game 5 5)))\<lparr>generation := 1\<rparr>)
     = generation (resetGame (init_game 5 5)) + 1 \<and>
   wf_game lonely \<and> width lonely \<noteq> 0 \<and> height lonely \<noteq> 0 \<and> generation lonely = 0 \<and>
   (\<exists>s'. simulate lonely = Inr s' \<and> generation s' = 1)"
proof -
  note t = reset_then_step [of "init_game 5 5"]
  have a: "generation ((promote (resetGame (init_game 5 5)))\<lparr>generation := 1\<rparr>)
     = generation (resetGame (init_game 5 5)) + 1"
    using t [of "resetGame (init_game 5 5)"
        "(promote (resetGame (init_game 5 5)))\<lparr>generation := 1\<rparr>"]
    by (simp add: simulate_resetGame)
  have g0: "generation lonely = 0" by (simp add: lonely_def)
  have "\<exists>s'. simulate lonely = Inr s' \<and> generation s' = generation lonely + 1"
    using t [of lonely] by (simp add: lonely_wf)
  then show ?thesis using a by (simp add: simulate_resetGame lonely_wf g0)
qed

end
